theory Spec2Isabelle
  imports Main "HOL-Library.Word"
begin

unbundle bit_operations_syntax

section \<open>The JIT block cache of JitCache.cpp\<close>

text \<open>
  A shallow embedding of \<^verbatim>\<open>Source/Core/Core/PowerPC/JitCommon/JitCache.cpp\<close>.
  The C++ \<^verbatim>\<open>u32\<close> is a 32-bit word, so every sum and product wraps as the code's
  does. Host addresses (\<^verbatim>\<open>u8*\<close>, \<^verbatim>\<open>JitBlock*\<close>) and \<^verbatim>\<open>size_t\<close> indices are
  natural numbers; a null pointer is \<open>None\<close>.
\<close>

type_synonym u32 = "32 word"

subsection \<open>Data\<close>

text \<open>
  Modelled from the spec: the struct \<^verbatim>\<open>LinkData\<close> is declared in JitCache.h, which is
  not among the sources. The code reads and writes \<^verbatim>\<open>exitAddress\<close> and
  \<^verbatim>\<open>linkStatus\<close>; the spec adds "an implementation-defined patch site describing
  where in host memory the jump lives". The field \<open>patchSite\<close> holds what the host
  jump at that site currently targets: \<open>None\<close> for the generic dispatcher thunk,
  \<open>Some c\<close> for the host address \<open>c\<close>.
\<close>

record LinkData =
  exitAddress :: u32
  linkStatus :: bool
  patchSite :: "nat option"

text \<open>
  The fields of \<^verbatim>\<open>JitBlock\<close> that JitCache.cpp uses (the struct itself is declared
  in the absent header).
\<close>

record JitBlock =
  effectiveAddress :: u32
  physicalAddress :: u32
  msrBits :: u32
  originalSize :: u32
  codeSize :: u32
  checkedEntry :: nat
  normalEntry :: nat
  linkData :: "LinkData list"
  fast_block_map_index :: nat

text \<open>The result of \<^verbatim>\<open>PowerPC::JitCache_TranslateAddress\<close>: the two fields the code reads.\<close>

record TranslateResult =
  valid :: bool
  address :: u32

text \<open>
  What the cache takes from outside this file: the constants of JitCache.h, the two CPU
  registers behind the macros \<^verbatim>\<open>PC\<close> and \<^verbatim>\<open>MSR\<close>, the MMU lookup and the
  \<^verbatim>\<open>IR\<close> bit-field of \<^verbatim>\<open>UReg_MSR\<close>. None of them is defined under the sources, so
  every operation takes them as a parameter and every theorem holds for all their values.
\<close>

record ppc =
  JIT_CACHE_MSR_MASK :: u32
  BLOCK_RANGE_MAP_ELEMENTS :: u32
  FAST_BLOCK_MAP_MASK :: u32
  PC :: u32
  MSR :: u32
  JitCache_TranslateAddress :: "u32 \<Rightarrow> TranslateResult"
  UReg_MSR_IR :: "u32 \<Rightarrow> bool"

text \<open>
  The members of \<^verbatim>\<open>JitBaseBlockCache\<close>, and the two hint sets of the recompiler
  (\<^verbatim>\<open>m_jit.js\<close>) that the cache edits.

  \<^item> \<open>block_map\<close> is the \<^verbatim>\<open>std::multimap<u32, JitBlock>\<close>: its nodes in iteration
    order, each with its key, the address of the \<^verbatim>\<open>JitBlock\<close> it stores and that
    block. The multimap owns the blocks: a \<^verbatim>\<open>JitBlock*\<close> is valid exactly while a
    node with that address is in the list.
  \<^item> \<open>links_to\<close> is the \<^verbatim>\<open>std::multimap<u32, JitBlock*>\<close>, nodes in iteration order.
  \<^item> \<open>block_range_map\<close> is the \<^verbatim>\<open>std::map<u32, std::set<JitBlock*>>\<close>: entries in
    key order, each set in pointer order.
  \<^item> Modelled from the spec: \<^verbatim>\<open>ValidBlockBitSet\<close> is declared in JitCache.h; the spec
    describes "one bit per 32-byte chunk of guest physical address space". \<open>valid_block\<close>
    is the set of the bit numbers that are set.
  \<^item> \<open>fast_block_map\<close> is the \<^verbatim>\<open>std::array<JitBlock*, N>\<close>; the code only indexes it
    with \<^verbatim>\<open>FastLookupIndexForAddress\<close> results and with the 0 that
    \<^verbatim>\<open>AllocateBlock\<close> stores.
\<close>

record cache =
  block_map :: "(u32 \<times> nat \<times> JitBlock) list"
  links_to :: "(u32 \<times> nat) list"
  block_range_map :: "(u32 \<times> nat list) list"
  valid_block :: "u32 set"
  fast_block_map :: "nat \<Rightarrow> nat option"
  fifoWriteAddresses :: "u32 set"
  pairedQuantizeAddresses :: "u32 set"

subsection \<open>JitBlock::Overlap\<close>

definition Overlap :: "JitBlock \<Rightarrow> u32 \<Rightarrow> u32 \<Rightarrow> bool" where
  "Overlap b addr len =
     (if addr \<ge> physicalAddress b + originalSize b then False
      else if physicalAddress b \<ge> addr + len then False
      else True)"

subsection \<open>Containers\<close>

text \<open>
  \<^verbatim>\<open>std::multimap::emplace\<close> puts the new node at the upper bound of its key: after
  every node with a key that is not larger. \<^verbatim>\<open>equal_range\<close> is the run of nodes with
  one key, and \<^verbatim>\<open>erase(key)\<close> removes that whole run.
\<close>

fun mm_emplace :: "u32 \<Rightarrow> 'v \<Rightarrow> (u32 \<times> 'v) list \<Rightarrow> (u32 \<times> 'v) list" where
  "mm_emplace k v [] = [(k, v)]"
| "mm_emplace k v (e # es) =
     (if k < fst e then (k, v) # e # es else e # mm_emplace k v es)"

definition mm_equal_range :: "u32 \<Rightarrow> (u32 \<times> 'v) list \<Rightarrow> (u32 \<times> 'v) list" where
  "mm_equal_range k es = filter (\<lambda>e. fst e = k) es"

definition mm_erase_key :: "u32 \<Rightarrow> (u32 \<times> 'v) list \<Rightarrow> (u32 \<times> 'v) list" where
  "mm_erase_key k es = filter (\<lambda>e. fst e \<noteq> k) es"

text \<open>
  A \<^verbatim>\<open>std::set<JitBlock*>\<close> is a list of distinct addresses in increasing order.
\<close>

definition set_insert :: "nat \<Rightarrow> nat list \<Rightarrow> nat list" where
  "set_insert p ps = (if p \<in> set ps then ps else insort p ps)"

definition set_erase :: "nat \<Rightarrow> nat list \<Rightarrow> nat list" where
  "set_erase p ps = removeAll p ps"

text \<open>
  The \<^verbatim>\<open>std::map\<close> of the range index. \<open>brm_at_update k f\<close> is
  \<^verbatim>\<open>block_range_map[k].f(...)\<close>: \<^verbatim>\<open>operator[]\<close> creates an empty set when the key is
  absent. An iterator is the key it points to, \<open>None\<close> for \<^verbatim>\<open>end()\<close>.
\<close>

fun brm_at_update ::
  "u32 \<Rightarrow> (nat list \<Rightarrow> nat list) \<Rightarrow> (u32 \<times> nat list) list \<Rightarrow> (u32 \<times> nat list) list" where
  "brm_at_update k f [] = [(k, f [])]"
| "brm_at_update k f (e # es) =
     (if k = fst e then (k, f (snd e)) # es
      else if k < fst e then (k, f []) # e # es
      else e # brm_at_update k f es)"

definition brm_second :: "u32 \<Rightarrow> (u32 \<times> nat list) list \<Rightarrow> nat list" where
  "brm_second k m = (case map_of m k of None \<Rightarrow> [] | Some ps \<Rightarrow> ps)"

definition brm_set_erase :: "u32 \<Rightarrow> nat \<Rightarrow> (u32 \<times> nat list) list \<Rightarrow> (u32 \<times> nat list) list" where
  "brm_set_erase k p m = map (\<lambda>e. if fst e = k then (fst e, set_erase p (snd e)) else e) m"

definition lower_bound :: "u32 \<Rightarrow> (u32 \<times> nat list) list \<Rightarrow> u32 option" where
  "lower_bound k m = map_option fst (find (\<lambda>e. k \<le> fst e) m)"

definition brm_next :: "u32 \<Rightarrow> (u32 \<times> nat list) list \<Rightarrow> u32 option" where
  "brm_next k m = map_option fst (find (\<lambda>e. k < fst e) m)"

subsection \<open>Pointers to blocks\<close>

text \<open>
  Reading through a \<^verbatim>\<open>JitBlock*\<close> gives the block of the node at that address; once the
  node is erased the pointer dangles and reading through it is undefined behaviour, which
  every operation below reports as \<open>None\<close>. Writing a field through a valid pointer
  replaces the block in that node. A new node gets an address that no node of the multimap
  has.
\<close>

definition deref :: "cache \<Rightarrow> nat \<Rightarrow> JitBlock option" where
  "deref s p = map_of (map snd (block_map s)) p"

fun store_node ::
  "nat \<Rightarrow> JitBlock \<Rightarrow> (u32 \<times> nat \<times> JitBlock) list \<Rightarrow> (u32 \<times> nat \<times> JitBlock) list" where
  "store_node p b [] = []"
| "store_node p b (e # es) =
     (if fst (snd e) = p then (fst e, p, b) # es else e # store_node p b es)"

definition store :: "nat \<Rightarrow> JitBlock \<Rightarrow> cache \<Rightarrow> cache" where
  "store p b s = s\<lparr>block_map := store_node p b (block_map s)\<rparr>"

definition new_node :: "(u32 \<times> nat \<times> JitBlock) list \<Rightarrow> nat" where
  "new_node bm = Suc (fold max (map (\<lambda>e. fst (snd e)) bm) 0)"

subsection \<open>AllocateBlock, GetBlockFromStartAddress\<close>

definition FastLookupIndexForAddress :: "ppc \<Rightarrow> u32 \<Rightarrow> nat" where
  "FastLookupIndexForAddress x a = unat (drop_bit 2 a AND FAST_BLOCK_MAP_MASK x)"

text \<open>\<^verbatim>\<open>JitBlock()\<close> is value-initialised: every field zero, no exits.\<close>

definition JitBlock_init :: JitBlock where
  "JitBlock_init =
     \<lparr>effectiveAddress = 0, physicalAddress = 0, msrBits = 0, originalSize = 0, codeSize = 0,
      checkedEntry = 0, normalEntry = 0, linkData = [], fast_block_map_index = 0\<rparr>"

text \<open>
  \<^verbatim>\<open>AllocateBlock\<close> reads the \<^verbatim>\<open>address\<close> field of the translation and nothing else.
  It returns the address of the new block and the cache.
\<close>

definition AllocateBlock :: "ppc \<Rightarrow> u32 \<Rightarrow> cache \<Rightarrow> nat \<times> cache" where
  "AllocateBlock x em_address s =
     (let physicalAddress' = address (JitCache_TranslateAddress x em_address);
          p = new_node (block_map s);
          b = JitBlock_init\<lparr>effectiveAddress := em_address,
                physicalAddress := physicalAddress',
                msrBits := MSR x AND JIT_CACHE_MSR_MASK x,
                linkData := [],
                fast_block_map_index := 0\<rparr>
      in (p, s\<lparr>block_map := mm_emplace physicalAddress' (p, b) (block_map s)\<rparr>))"

text \<open>
  The loop over \<^verbatim>\<open>block_map.equal_range(translated_addr)\<close>, which returns at the first
  match. The result is the pointer found, together with the block it points to.
\<close>

definition block_map_find ::
  "ppc \<Rightarrow> cache \<Rightarrow> u32 \<Rightarrow> u32 \<Rightarrow> u32 \<Rightarrow> (nat \<times> JitBlock) option" where
  "block_map_find x s translated_addr addr msr =
     map_option snd
       (find (\<lambda>e. effectiveAddress (snd (snd e)) = addr \<and>
                   msrBits (snd (snd e)) = msr AND JIT_CACHE_MSR_MASK x)
          (mm_equal_range translated_addr (block_map s)))"

definition GetBlockFromStartAddress ::
  "ppc \<Rightarrow> cache \<Rightarrow> u32 \<Rightarrow> u32 \<Rightarrow> (nat \<times> JitBlock) option" where
  "GetBlockFromStartAddress x s addr msr =
     (if UReg_MSR_IR x msr then
        (let translated = JitCache_TranslateAddress x addr in
         if \<not> valid translated then None
         else block_map_find x s (address translated) addr msr)
      else block_map_find x s addr addr msr)"

subsection \<open>Linking\<close>

text \<open>
  Modelled from the spec: \<^verbatim>\<open>WriteLinkBlock\<close> is implemented by the recompiler, not in
  this file. The spec: "patch the host jump at the LinkData's site to either
  \<^verbatim>\<open>dest.checked_entry\<close> or a generic thunk when \<^verbatim>\<open>dest\<close> is absent".
\<close>

definition WriteLinkBlock :: "LinkData \<Rightarrow> JitBlock option \<Rightarrow> LinkData" where
  "WriteLinkBlock e dest = e\<lparr>patchSite := map_option checkedEntry dest\<rparr>"

text \<open>
  The body of the loop of \<^verbatim>\<open>LinkBlockExits\<close>. The lookup reads keys, effective
  addresses, MSR bits and checked entries, none of which the loop writes, so each exit is
  computed from the cache as it was when the loop began.
\<close>

definition link_exit :: "ppc \<Rightarrow> cache \<Rightarrow> u32 \<Rightarrow> LinkData \<Rightarrow> LinkData" where
  "link_exit x s msr e =
     (if \<not> linkStatus e then
        (case GetBlockFromStartAddress x s (exitAddress e) msr of
           None \<Rightarrow> e
         | Some destinationBlock \<Rightarrow>
             (WriteLinkBlock e (Some (snd destinationBlock)))\<lparr>linkStatus := True\<rparr>)
      else e)"

definition LinkBlockExits :: "ppc \<Rightarrow> nat \<Rightarrow> cache \<Rightarrow> cache option" where
  "LinkBlockExits x p s =
     (case deref s p of
        None \<Rightarrow> None
      | Some block \<Rightarrow>
          Some (store p (block\<lparr>linkData := map (link_exit x s (msrBits block)) (linkData block)\<rparr>) s))"

fun LinkBlock_loop :: "ppc \<Rightarrow> u32 \<Rightarrow> nat list \<Rightarrow> cache \<Rightarrow> cache option" where
  "LinkBlock_loop x msr [] s = Some s"
| "LinkBlock_loop x msr (q # qs) s =
     (case deref s q of
        None \<Rightarrow> None
      | Some b2 \<Rightarrow>
          if msr = msrBits b2 then
            (case LinkBlockExits x q s of
               None \<Rightarrow> None
             | Some s' \<Rightarrow> LinkBlock_loop x msr qs s')
          else LinkBlock_loop x msr qs s)"

definition LinkBlock :: "ppc \<Rightarrow> nat \<Rightarrow> cache \<Rightarrow> cache option" where
  "LinkBlock x p s =
     (case LinkBlockExits x p s of
        None \<Rightarrow> None
      | Some s1 \<Rightarrow>
          (case deref s1 p of
             None \<Rightarrow> None
           | Some block \<Rightarrow>
               LinkBlock_loop x (msrBits block)
                 (map snd (mm_equal_range (effectiveAddress block) (links_to s1))) s1))"

definition unlink_exit :: "u32 \<Rightarrow> LinkData \<Rightarrow> LinkData" where
  "unlink_exit ea e =
     (if exitAddress e = ea then (WriteLinkBlock e None)\<lparr>linkStatus := False\<rparr> else e)"

fun UnlinkBlock_loop :: "u32 \<Rightarrow> u32 \<Rightarrow> nat list \<Rightarrow> cache \<Rightarrow> cache option" where
  "UnlinkBlock_loop ea msr [] s = Some s"
| "UnlinkBlock_loop ea msr (q # qs) s =
     (case deref s q of
        None \<Rightarrow> None
      | Some sourceBlock \<Rightarrow>
          if msrBits sourceBlock \<noteq> msr then UnlinkBlock_loop ea msr qs s
          else UnlinkBlock_loop ea msr qs
                 (store q (sourceBlock\<lparr>linkData := map (unlink_exit ea) (linkData sourceBlock)\<rparr>) s))"

definition UnlinkBlock :: "nat \<Rightarrow> cache \<Rightarrow> cache option" where
  "UnlinkBlock p s =
     (case deref s p of
        None \<Rightarrow> None
      | Some block \<Rightarrow>
          UnlinkBlock_loop (effectiveAddress block) (msrBits block)
            (map snd (mm_equal_range (effectiveAddress block) (links_to s))) s)"

subsection \<open>DestroyBlock, Clear\<close>

text \<open>
  \<^verbatim>\<open>WriteDestroyBlock\<close> has an empty body in this class, so \<^verbatim>\<open>DestroyBlock\<close> ends
  with the loop that erases from \<open>links_to\<close>, for each exit of the block, the nodes
  under the exit's address that point to the block.
\<close>

definition links_to_erase :: "nat \<Rightarrow> LinkData \<Rightarrow> (u32 \<times> nat) list \<Rightarrow> (u32 \<times> nat) list" where
  "links_to_erase p e l = filter (\<lambda>n. \<not> (fst n = exitAddress e \<and> snd n = p)) l"

definition DestroyBlock :: "nat \<Rightarrow> cache \<Rightarrow> cache option" where
  "DestroyBlock p s =
     (case deref s p of
        None \<Rightarrow> None
      | Some block \<Rightarrow>
          let s1 = (if fast_block_map s (fast_block_map_index block) = Some p
                    then s\<lparr>fast_block_map := (fast_block_map s)(fast_block_map_index block := None)\<rparr>
                    else s)
          in (case UnlinkBlock p s1 of
                None \<Rightarrow> None
              | Some s2 \<Rightarrow>
                  (case deref s2 p of
                     None \<Rightarrow> None
                   | Some block' \<Rightarrow>
                       Some (s2\<lparr>links_to := fold (links_to_erase p) (linkData block') (links_to s2)\<rparr>))))"

fun Clear_loop :: "nat list \<Rightarrow> cache \<Rightarrow> cache option" where
  "Clear_loop [] s = Some s"
| "Clear_loop (p # ps) s =
     (case DestroyBlock p s of None \<Rightarrow> None | Some s' \<Rightarrow> Clear_loop ps s')"

definition Clear :: "cache \<Rightarrow> cache option" where
  "Clear s =
     (let s0 = s\<lparr>fifoWriteAddresses := {}, pairedQuantizeAddresses := {}\<rparr> in
      case Clear_loop (map (\<lambda>e. fst (snd e)) (block_map s0)) s0 of
        None \<Rightarrow> None
      | Some s1 \<Rightarrow>
          Some (s1\<lparr>block_map := [], links_to := [], block_range_map := [],
                   valid_block := {}, fast_block_map := (\<lambda>i. None)\<rparr>))"

subsection \<open>FinalizeBlock\<close>

text \<open>
  The two \<^verbatim>\<open>for\<close> loops count in \<^verbatim>\<open>u32\<close>: when the bound is the largest value the
  counter can take, the increment wraps and the loop does not end. They are partial
  functions, \<open>None\<close> when the loop runs forever.
\<close>

partial_function (option) valid_block_loop :: "u32 \<Rightarrow> u32 \<Rightarrow> u32 set \<Rightarrow> u32 set option" where
  "valid_block_loop addr hi vb =
     (if addr \<le> hi then valid_block_loop (addr + 1) hi (insert addr vb) else Some vb)"

declare valid_block_loop.simps [code]

partial_function (option) range_insert_loop ::
  "u32 \<Rightarrow> u32 \<Rightarrow> u32 \<Rightarrow> nat \<Rightarrow> (u32 \<times> nat list) list \<Rightarrow> (u32 \<times> nat list) list option" where
  "range_insert_loop addr hi step p m =
     (if addr \<le> hi
      then range_insert_loop (addr + step) hi step p (brm_at_update addr (set_insert p) m)
      else Some m)"

declare range_insert_loop.simps [code]

text \<open>
  The block is passed by reference: \<open>p\<close> is its address. The argument \<^verbatim>\<open>code_ptr\<close> is
  not used by the body, and \<^verbatim>\<open>JitRegister::Register\<close> only informs the profiler; both
  are left out.
\<close>

definition FinalizeBlock :: "ppc \<Rightarrow> nat \<Rightarrow> bool \<Rightarrow> cache \<Rightarrow> cache option" where
  "FinalizeBlock x p block_link s =
     (case deref s p of
        None \<Rightarrow> None
      | Some block \<Rightarrow>
          let index = FastLookupIndexForAddress x (effectiveAddress block);
              s1 = store p (block\<lparr>fast_block_map_index := index\<rparr>)
                     (s\<lparr>fast_block_map := (fast_block_map s)(index := Some p)\<rparr>);
              block_start = physicalAddress block;
              block_end = block_start + (originalSize block - 1) * 4;
              mask = NOT (BLOCK_RANGE_MAP_ELEMENTS x - 1)
          in (case valid_block_loop (block_start div 32) (block_end div 32) (valid_block s1) of
                None \<Rightarrow> None
              | Some vb \<Rightarrow>
                  (case range_insert_loop (block_start AND mask) (block_end AND mask)
                          (BLOCK_RANGE_MAP_ELEMENTS x) p (block_range_map s1) of
                     None \<Rightarrow> None
                   | Some m \<Rightarrow>
                       let s2 = s1\<lparr>valid_block := vb, block_range_map := m\<rparr> in
                       if block_link then
                         LinkBlock x p
                           (s2\<lparr>links_to := fold (\<lambda>e. mm_emplace (exitAddress e) p)
                                              (linkData block) (links_to s2)\<rparr>)
                       else Some s2)))"

subsection \<open>MoveBlockIntoFastCache, Dispatch\<close>

text \<open>
  \<^verbatim>\<open>Jit\<close> is the recompiler's entry point, a collaborator: the parameter \<open>jit\<close>.
\<close>

definition MoveBlockIntoFastCache ::
  "ppc \<Rightarrow> (u32 \<Rightarrow> cache \<Rightarrow> cache option) \<Rightarrow> u32 \<Rightarrow> u32 \<Rightarrow> cache \<Rightarrow> cache option" where
  "MoveBlockIntoFastCache x jit addr msr s =
     (case GetBlockFromStartAddress x s addr msr of
        None \<Rightarrow> jit addr s
      | Some found \<Rightarrow>
          let p = fst found; block = snd found;
              s1 = (if fast_block_map s (fast_block_map_index block) = Some p
                    then s\<lparr>fast_block_map := (fast_block_map s)(fast_block_map_index block := None)\<rparr>
                    else s);
              index = FastLookupIndexForAddress x addr;
              s2 = store p (block\<lparr>fast_block_map_index := index\<rparr>)
                     (s1\<lparr>fast_block_map := (fast_block_map s1)(index := Some p)\<rparr>)
          in LinkBlock x p s2)"





subsection \<open>InvalidateICache\<close>

text \<open>
  The loop that removes an overlapping block from the other buckets it occupies;
  \<open>cur\<close> is \<^verbatim>\<open>start->first\<close>, the key of the bucket being walked.
\<close>

partial_function (option) range_erase_loop ::
  "u32 \<Rightarrow> u32 \<Rightarrow> u32 \<Rightarrow> u32 \<Rightarrow> nat \<Rightarrow> (u32 \<times> nat list) list \<Rightarrow> (u32 \<times> nat list) list option" where
  "range_erase_loop addr hi step cur p m =
     (if addr \<le> hi
      then range_erase_loop (addr + step) hi step cur p
             (if addr \<noteq> cur then brm_at_update addr (set_erase p) m else m)
      else Some m)"

declare range_erase_loop.simps [code]

text \<open>
  The inner loop over the set of one bucket. The set only loses the element the iterator
  stands on, so the loop runs over the elements the set had when the loop began, in
  order. \<^verbatim>\<open>block_map.erase(block->physicalAddress)\<close> is the erase by key of the
  multimap.
\<close>

fun bucket_loop :: "ppc \<Rightarrow> u32 \<Rightarrow> u32 \<Rightarrow> u32 \<Rightarrow> nat list \<Rightarrow> cache \<Rightarrow> cache option" where
  "bucket_loop x cur pAddr len [] s = Some s"
| "bucket_loop x cur pAddr len (p # ps) s =
     (case deref s p of
        None \<Rightarrow> None
      | Some block \<Rightarrow>
          if Overlap block pAddr len then
            let mask = NOT (BLOCK_RANGE_MAP_ELEMENTS x - 1);
                block_start = physicalAddress block;
                block_end = block_start + (originalSize block - 1) * 4
            in (case range_erase_loop (block_start AND mask) (block_end AND mask)
                       (BLOCK_RANGE_MAP_ELEMENTS x) cur p (block_range_map s) of
                  None \<Rightarrow> None
                | Some m \<Rightarrow>
                    (case DestroyBlock p (s\<lparr>block_range_map := m\<rparr>) of
                       None \<Rightarrow> None
                     | Some s1 \<Rightarrow>
                         let s2 = s1\<lparr>block_map := mm_erase_key (physicalAddress block) (block_map s1)\<rparr>;
                             s3 = s2\<lparr>block_range_map := brm_set_erase cur p (block_range_map s2)\<rparr>
                         in bucket_loop x cur pAddr len ps s3))
          else bucket_loop x cur pAddr len ps s)"

text \<open>
  The outer loop, from the iterator \<open>start\<close> to the iterator \<open>end\<close>. Incrementing or
  dereferencing \<^verbatim>\<open>end()\<close> is undefined behaviour: \<open>None\<close>.
\<close>

partial_function (option) range_walk ::
  "ppc \<Rightarrow> u32 \<Rightarrow> u32 \<Rightarrow> u32 option \<Rightarrow> u32 option \<Rightarrow> cache \<Rightarrow> cache option" where
  "range_walk cpu pAddr len start end' s =
     (if start = end' then Some s
      else
        (case start of
           None \<Rightarrow> None
         | Some cur \<Rightarrow>
             (case bucket_loop cpu cur pAddr len (brm_second cur (block_range_map s)) s of
                None \<Rightarrow> None
              | Some s1 \<Rightarrow>
                  if brm_second cur (block_range_map s1) = []
                  then range_walk cpu pAddr len (brm_next cur (block_range_map s1)) end'
                         (s1\<lparr>block_range_map := mm_erase_key cur (block_range_map s1)\<rparr>)
                  else range_walk cpu pAddr len (brm_next cur (block_range_map s1)) end' s1)))"

declare range_walk.simps [code]

partial_function (option) hint_erase_loop ::
  "u32 \<Rightarrow> u32 \<Rightarrow> cache \<Rightarrow> cache option" where
  "hint_erase_loop i hi s =
     (if i < hi
      then hint_erase_loop (i + 4) hi
             (s\<lparr>fifoWriteAddresses := fifoWriteAddresses s - {i},
                pairedQuantizeAddresses := pairedQuantizeAddresses s - {i}\<rparr>)
      else Some s)"

declare hint_erase_loop.simps [code]

text \<open>The block guarded by \<^verbatim>\<open>if (destroy_block)\<close>: the range walk, then the hints.\<close>

definition destroy_blocks :: "ppc \<Rightarrow> u32 \<Rightarrow> u32 \<Rightarrow> u32 \<Rightarrow> bool \<Rightarrow> cache \<Rightarrow> cache option" where
  "destroy_blocks x address' pAddr len forced s =
     (let mask = NOT (BLOCK_RANGE_MAP_ELEMENTS x - 1);
          start = lower_bound (pAddr AND mask) (block_range_map s);
          end' = lower_bound (pAddr + len) (block_range_map s)
      in (case range_walk x pAddr len start end' s of
            None \<Rightarrow> None
          | Some s1 \<Rightarrow>
              if \<not> forced then hint_erase_loop address' (address' + len) s1 else Some s1))"

definition InvalidateICache :: "ppc \<Rightarrow> u32 \<Rightarrow> u32 \<Rightarrow> bool \<Rightarrow> cache \<Rightarrow> cache option" where
  "InvalidateICache x address' len forced s =
     (let translated = JitCache_TranslateAddress x address' in
      if \<not> valid translated then Some s
      else
        let pAddr = address translated in
        if len = 32 then
          (if pAddr div 32 \<notin> valid_block s then Some s
           else destroy_blocks x address' pAddr len forced
                  (s\<lparr>valid_block := valid_block s - {pAddr div 32}\<rparr>))
        else destroy_blocks x address' pAddr len forced s)"

section \<open>Predicates and scenarios\<close>

subsection \<open>What an operation may change in the registry\<close>

text \<open>
  \<open>registry_rel R s s'\<close>: the registry of \<open>s'\<close> has the nodes of \<open>s\<close>, with the
  same keys and addresses in the same order, and each block is related to what it was by
  \<open>R\<close>. \<open>unlinked_from ea\<close> relates a block to itself with some of its exits put back
  to the dispatcher thunk by \<^verbatim>\<open>UnlinkBlock\<close>; \<open>relinked\<close> relates a block to itself with
  other link states, patch sites and fast-map index.
\<close>

definition registry_rel :: "(JitBlock \<Rightarrow> JitBlock \<Rightarrow> bool) \<Rightarrow> cache \<Rightarrow> cache \<Rightarrow> bool" where
  "registry_rel R s s' \<longleftrightarrow>
     list_all2 (\<lambda>n n'. fst n' = fst n \<and> fst (snd n') = fst (snd n) \<and> R (snd (snd n)) (snd (snd n')))
       (block_map s) (block_map s')"

definition unlinked_from :: "u32 \<Rightarrow> JitBlock \<Rightarrow> JitBlock \<Rightarrow> bool" where
  "unlinked_from ea b b' \<longleftrightarrow>
     (\<exists>ld. b' = b\<lparr>linkData := ld\<rparr> \<and>
           list_all2 (\<lambda>e e'. e' = e \<or> e' = unlink_exit ea e) (linkData b) ld)"

definition relinked :: "JitBlock \<Rightarrow> JitBlock \<Rightarrow> bool" where
  "relinked b b' \<longleftrightarrow>
     (\<exists>ld i. b' = b\<lparr>linkData := ld, fast_block_map_index := i\<rparr> \<and>
            map exitAddress ld = map exitAddress (linkData b))"

subsection \<open>Exits\<close>

text \<open>
  \<open>exit_of s a i\<close> is exit \<open>i\<close> of the block at address \<open>a\<close>. \<open>lookup_entry\<close> is
  what \<^verbatim>\<open>LinkBlockExits\<close> takes from a lookup: the block found and its checked entry.
  An exit is pending for the entry \<open>c\<close> when it is not linked, or linked to \<open>c\<close>.
\<close>

definition exit_of :: "cache \<Rightarrow> nat \<Rightarrow> nat \<Rightarrow> LinkData option" where
  "exit_of s a i =
     (case deref s a of
        None \<Rightarrow> None
      | Some A \<Rightarrow> if i < length (linkData A) then Some (linkData A ! i) else None)"

definition lookup_entry :: "ppc \<Rightarrow> cache \<Rightarrow> u32 \<Rightarrow> u32 \<Rightarrow> (nat \<times> nat) option" where
  "lookup_entry x s t msr =
     map_option (\<lambda>r. (fst r, checkedEntry (snd r))) (GetBlockFromStartAddress x s t msr)"

definition exit_pending :: "cache \<Rightarrow> nat \<Rightarrow> nat \<Rightarrow> u32 \<Rightarrow> u32 \<Rightarrow> nat \<Rightarrow> bool" where
  "exit_pending s a i t msr c \<longleftrightarrow>
     (\<exists>A0. deref s a = Some A0 \<and> msrBits A0 = msr \<and> i < length (linkData A0) \<and>
           exitAddress (linkData A0 ! i) = t \<and>
           (\<not> linkStatus (linkData A0 ! i) \<or> patchSite (linkData A0 ! i) = Some c))"

definition exit_linked :: "cache \<Rightarrow> nat \<Rightarrow> nat \<Rightarrow> nat \<Rightarrow> bool" where
  "exit_linked s a i c \<longleftrightarrow>
     (\<exists>A0. deref s a = Some A0 \<and> i < length (linkData A0) \<and>
           linkStatus (linkData A0 ! i) \<and> patchSite (linkData A0 ! i) = Some c)"

text \<open>The first step of \<^verbatim>\<open>FinalizeBlock\<close>: the block is installed in the fast map.\<close>

definition installed :: "ppc \<Rightarrow> nat \<Rightarrow> JitBlock \<Rightarrow> cache \<Rightarrow> cache" where
  "installed x p block s =
     store p (block\<lparr>fast_block_map_index := FastLookupIndexForAddress x (effectiveAddress block)\<rparr>)
       (s\<lparr>fast_block_map :=
            (fast_block_map s)(FastLookupIndexForAddress x (effectiveAddress block) := Some p)\<rparr>)"

subsection \<open>Pointers that do not dangle\<close>

definition links_valid :: "cache \<Rightarrow> bool" where
  "links_valid s \<longleftrightarrow> (\<forall>n \<in> set (links_to s). deref s (snd n) \<noteq> None)"

definition fast_map_valid :: "cache \<Rightarrow> bool" where
  "fast_map_valid s \<longleftrightarrow> (\<forall>i p. fast_block_map s i = Some p \<longrightarrow> deref s p \<noteq> None)"

subsection \<open>Dispatch\<close>



subsection \<open>The link-graph invariant and the public operations\<close>

text \<open>
  \<open>links_registered s\<close>: for every block of the registry and every exit of the block,
  the link graph has the pair of the exit's address and the block.
  \<open>links_registered_except p\<close> asks this of the blocks at other addresses than \<open>p\<close>.
  \<open>registry_wf s\<close>: no two nodes of the registry hold the same block address, and each
  node is keyed by the physical address of its block (as \<^verbatim>\<open>AllocateBlock\<close> makes them).
\<close>

definition links_registered :: "cache \<Rightarrow> bool" where
  "links_registered s \<longleftrightarrow>
     (\<forall>n \<in> set (block_map s). \<forall>e \<in> set (linkData (snd (snd n))).
        (exitAddress e, fst (snd n)) \<in> set (links_to s))"


definition registry_wf :: "cache \<Rightarrow> bool" where
  "registry_wf s \<longleftrightarrow>
     distinct (map (\<lambda>n. fst (snd n)) (block_map s)) \<and>
     (\<forall>n \<in> set (block_map s). fst n = physicalAddress (snd (snd n)))"




subsection \<open>The cache after Clear\<close>

definition empty_cache :: cache where
  "empty_cache =
     \<lparr>block_map = [], links_to = [], block_range_map = [], valid_block = {},
      fast_block_map = (\<lambda>i. None), fifoWriteAddresses = {}, pairedQuantizeAddresses = {}\<rparr>"

subsection \<open>The recompiler\<close>

text \<open>
  Modelled from the spec: the recompiler is not in this file. Between
  \<^verbatim>\<open>AllocateBlock\<close> and \<^verbatim>\<open>FinalizeBlock\<close> it writes through the pointer it got: the
  spec has \<^verbatim>\<open>Allocate\<close> return "a mutable borrow for the recompiler to populate
  \<^verbatim>\<open>original_size\<close>, the two entry pointers, \<^verbatim>\<open>code_size\<close>, and the \<^verbatim>\<open>link_data\<close>
  sequence". \<open>compile_block\<close> is one such run of the recompiler: allocate, populate,
  finalize.
\<close>

definition populate :: "nat \<Rightarrow> u32 \<Rightarrow> nat \<Rightarrow> nat \<Rightarrow> LinkData list \<Rightarrow> cache \<Rightarrow> cache" where
  "populate p n centry nentry exits s =
     (case deref s p of
        None \<Rightarrow> s
      | Some b \<Rightarrow>
          store p (b\<lparr>originalSize := n, checkedEntry := centry, normalEntry := nentry,
                     linkData := exits\<rparr>) s)"

definition compile_block ::
  "ppc \<Rightarrow> u32 \<Rightarrow> nat \<Rightarrow> nat \<Rightarrow> LinkData list \<Rightarrow> bool \<Rightarrow> u32 \<Rightarrow> cache \<Rightarrow> cache option" where
  "compile_block x n centry nentry exits block_link em_address s =
     (let a = AllocateBlock x em_address s
      in FinalizeBlock x (fst a) block_link (populate (fst a) n centry nentry exits (snd a)))"

subsection \<open>Caches built by the recompiler\<close>

text \<open>
  The caches that arise from the empty one by any sequence of \<^verbatim>\<open>AllocateBlock\<close>, writes
  of the recompiler through the pointers it holds, and \<^verbatim>\<open>FinalizeBlock\<close> calls that
  return. \<open>no_dangling\<close> collects what the theorems below assume of a cache.
\<close>

inductive built :: "ppc \<Rightarrow> cache \<Rightarrow> bool" for x :: ppc where
  built_empty: "built x empty_cache"
| built_Allocate: "built x s \<Longrightarrow> built x (snd (AllocateBlock x em_address s))"
| built_populate: "built x s \<Longrightarrow> built x (populate p n centry nentry exits s)"
| built_Finalize: "built x s \<Longrightarrow> FinalizeBlock x p block_link s = Some s' \<Longrightarrow> built x s'"

definition no_dangling :: "cache \<Rightarrow> bool" where
  "no_dangling s \<longleftrightarrow> links_valid s \<and> fast_map_valid s \<and> registry_wf s"

subsection \<open>Scenarios\<close>

text \<open>
  The constants of the spec's end-to-end scenarios: \<^verbatim>\<open>MSR_MASK = 0x30\<close>,
  \<^verbatim>\<open>BUCKET = 0x100\<close>, a fast map of 4 slots; an MMU that maps \<open>0x80001000\<close> to
  \<open>0x1000\<close>; \<^verbatim>\<open>MSR.IR\<close> is bit 5 of the register.
\<close>

definition ex_ppc :: ppc where
  "ex_ppc =
     \<lparr>JIT_CACHE_MSR_MASK = 0x30, BLOCK_RANGE_MAP_ELEMENTS = 0x100, FAST_BLOCK_MAP_MASK = 3,
      PC = 0x80001000, MSR = 0x30,
      JitCache_TranslateAddress = (\<lambda>a. \<lparr>valid = True, address = a AND 0x3FFFFFFF\<rparr>),
      UReg_MSR_IR = (\<lambda>m. bit m 5)\<rparr>"

definition unlinked_exit :: "u32 \<Rightarrow> LinkData" where
  "unlinked_exit t = \<lparr>exitAddress = t, linkStatus = False, patchSite = None\<rparr>"

text \<open>
  Scenario 5 of the spec: block A (address 1) at \<open>0x1000\<close> with an exit to \<open>0x2000\<close>,
  then block B (address 2) at \<open>0x2000\<close>, both finalized with linking.
\<close>

definition ex_A :: cache where
  "ex_A = the (compile_block ex_ppc 4 100 101 [unlinked_exit 0x2000] True 0x1000 empty_cache)"

definition ex_AB :: cache where
  "ex_AB = the (compile_block ex_ppc 4 200 201 [] True 0x2000 ex_A)"

text \<open>The same machine with an MMU that maps nothing.\<close>

definition ex_ppc_unmapped :: ppc where
  "ex_ppc_unmapped =
     ex_ppc\<lparr>JitCache_TranslateAddress := (\<lambda>a. \<lparr>valid = False, address = 0\<rparr>)\<rparr>"

text \<open>
  Scenario 5 just before block B is finalized: B (address 2) is allocated and populated,
  and A's exit to \<open>0x2000\<close> is still unlinked.
\<close>

definition ex_block_A :: JitBlock where
  "ex_block_A =
     \<lparr>effectiveAddress = 0x1000, physicalAddress = 0x1000, msrBits = 0x30, originalSize = 4,
      codeSize = 0, checkedEntry = 100, normalEntry = 101,
      linkData = [unlinked_exit 0x2000], fast_block_map_index = 0\<rparr>"

definition ex_block_B :: JitBlock where
  "ex_block_B =
     \<lparr>effectiveAddress = 0x2000, physicalAddress = 0x2000, msrBits = 0x30, originalSize = 4,
      codeSize = 0, checkedEntry = 200, normalEntry = 201,
      linkData = [], fast_block_map_index = 0\<rparr>"

definition ex_A_B_pending :: cache where
  "ex_A_B_pending = populate 2 4 200 201 [] (snd (AllocateBlock ex_ppc 0x2000 ex_A))"

text \<open>
  The same, but an older translation of \<open>0x2000\<close> (address 2, checked entry 300) was
  finalized without linking before B (address 3, checked entry 200) was allocated.
\<close>

definition ex_dup_pending :: cache where
  "ex_dup_pending =
     populate 3 4 200 201 []
       (snd (AllocateBlock ex_ppc 0x2000
          (the (compile_block ex_ppc 4 300 301 [] False 0x2000 ex_A))))"

text \<open>
  Two blocks under the physical key \<open>0x1000\<close>, both finalized: one instruction at the
  effective address \<open>0x80001000\<close> (address 1) and eight instructions at its mirror
  \<open>0xC0001000\<close> (address 2).
\<close>

definition ex_alias :: cache where
  "ex_alias =
     the (compile_block ex_ppc 8 200 201 [] False 0xC0001000
            (the (compile_block ex_ppc 1 100 101 [] False 0x80001000 empty_cache)))"


text \<open>
  The cache of \<open>ex_alias\<close> after \<^verbatim>\<open>MoveBlockIntoFastCache(0x80001000, 0x30)\<close>, which
  installs the block at address 1 in slot 0 of the fast map, and
  \<^verbatim>\<open>InvalidateICache(0x80001004, 4, false)\<close>, which erases both blocks from the registry
  and leaves slot 0 as it is. The recompiler is not called on the way.
\<close>

definition ex_stale :: cache where
  "ex_stale =
     the (InvalidateICache ex_ppc 0x80001004 4 False
            (the (MoveBlockIntoFastCache ex_ppc (\<lambda>a s. None) 0x80001000 0x30 ex_alias)))"

section \<open>Properties\<close>

subsection \<open>Overlap\<close>

text \<open>
  C1. The claim: \<^verbatim>\<open>Overlap(addr, length)\<close> is true exactly when
  \<open>addr < physical_address + 4 * original_size\<close> and \<open>physical_address < addr + length\<close>.
  The code adds \<^verbatim>\<open>originalSize\<close> itself, not four times it, while \<^verbatim>\<open>FinalizeBlock\<close>
  and \<^verbatim>\<open>InvalidateICache\<close> compute the last byte as \<open>(originalSize - 1) * 4\<close>. For the
  block of 4 instructions at \<open>0x1000\<close> and the query \<open>[0x1008, 0x100C)\<close> the two
  conditions of the claim hold and the code answers false.
\<close>

theorem Overlap_ignores_instruction_width:
  "Overlap (JitBlock_init\<lparr>physicalAddress := 0x1000, originalSize := 4\<rparr>) 0x1008 4 = False
   \<and> (0x1008 :: u32) < 0x1000 + 4 * 4 \<and> (0x1000 :: u32) < 0x1008 + 4"
  by (simp add: Overlap_def JitBlock_init_def)

subsection \<open>Reading and writing through pointers\<close>

lemma store_fields [simp]:
  "links_to (store p b s) = links_to s"
  "block_range_map (store p b s) = block_range_map s"
  "valid_block (store p b s) = valid_block s"
  "fast_block_map (store p b s) = fast_block_map s"
  "fifoWriteAddresses (store p b s) = fifoWriteAddresses s"
  "pairedQuantizeAddresses (store p b s) = pairedQuantizeAddresses s"
  by (simp_all add: store_def)

lemma map_of_store_node:
  "map_of (map snd (store_node p b bm)) q =
     (if q = p then (if map_of (map snd bm) p = None then None else Some b)
      else map_of (map snd bm) q)"
  by (induction bm) auto

lemma deref_store:
  "deref (store p b s) q =
     (if q = p then (if deref s p = None then None else Some b) else deref s q)"
  by (simp add: deref_def store_def map_of_store_node)

lemma deref_other_fields [simp]:
  "deref (s\<lparr>links_to := l\<rparr>) = deref s"
  "deref (s\<lparr>block_range_map := m\<rparr>) = deref s"
  "deref (s\<lparr>valid_block := v\<rparr>) = deref s"
  "deref (s\<lparr>fast_block_map := f\<rparr>) = deref s"
  "deref (s\<lparr>fifoWriteAddresses := h\<rparr>) = deref s"
  "deref (s\<lparr>pairedQuantizeAddresses := h\<rparr>) = deref s"
  by (simp_all add: deref_def fun_eq_iff)

subsection \<open>The registry relation\<close>

lemma registry_rel_refl: "(\<And>b. R b b) \<Longrightarrow> registry_rel R s s"
  by (simp add: registry_rel_def list_all2_refl)

lemma registry_rel_trans:
  assumes "\<And>a b c. R a b \<Longrightarrow> R b c \<Longrightarrow> R a c"
    and "registry_rel R s s'" and "registry_rel R s' s''"
  shows "registry_rel R s s''"
  using assms(2,3) unfolding registry_rel_def
  by (rule list_all2_trans[rotated]) (auto intro: assms(1))

lemma store_node_rel:
  assumes "\<And>b. R b b" "map_of (map snd bm) p = Some b0" "R b0 b'"
  shows "list_all2
           (\<lambda>n n'. fst n' = fst n \<and> fst (snd n') = fst (snd n) \<and> R (snd (snd n)) (snd (snd n')))
           bm (store_node p b' bm)"
  using assms(2)
proof (induction bm)
  case Nil
  then show ?case by simp
next
  case (Cons e es)
  show ?case
  proof (cases "fst (snd e) = p")
    case True
    with Cons.prems have "snd (snd e) = b0" by (cases e) auto
    with True assms(1,3) show ?thesis by (simp add: list_all2_refl)
  next
    case False
    with Cons.prems have "map_of (map snd es) p = Some b0" by (cases e) auto
    with False Cons.IH assms(1) show ?thesis by simp
  qed
qed

lemma registry_rel_store:
  "(\<And>b. R b b) \<Longrightarrow> deref s p = Some b0 \<Longrightarrow> R b0 b' \<Longrightarrow> registry_rel R s (store p b' s)"
  unfolding registry_rel_def deref_def store_def by (simp add: store_node_rel)

lemma registry_rel_deref:
  assumes "registry_rel R s s'"
  shows "rel_option R (deref s q) (deref s' q)"
proof -
  have "list_all2
          (\<lambda>n n'. fst n' = fst n \<and> fst (snd n') = fst (snd n) \<and> R (snd (snd n)) (snd (snd n')))
          bm bm'
    \<Longrightarrow> rel_option R (map_of (map snd bm) q) (map_of (map snd bm') q)"
    for bm bm' :: "(u32 \<times> nat \<times> JitBlock) list"
    by (induction bm bm' rule: list_all2_induct) auto
  with assms show ?thesis by (simp add: registry_rel_def deref_def)
qed

lemma registry_rel_live:
  "registry_rel R s s' \<Longrightarrow> deref s' q = None \<longleftrightarrow> deref s q = None"
  using registry_rel_deref[of R s s' q] by (cases "deref s q"; cases "deref s' q") auto

subsection \<open>UnlinkBlock and DestroyBlock\<close>

lemma unlinked_from_refl: "unlinked_from ea b b"
  unfolding unlinked_from_def by (rule exI[of _ "linkData b"]) (simp add: list_all2_refl)

lemma unlink_exit_idem: "unlink_exit ea (unlink_exit ea e) = unlink_exit ea e"
  by (simp add: unlink_exit_def WriteLinkBlock_def)

lemma unlinked_from_trans:
  assumes "unlinked_from ea a b" "unlinked_from ea b c"
  shows "unlinked_from ea a c"
proof -
  let ?Q = "\<lambda>e e'. e' = e \<or> e' = unlink_exit ea e"
  from assms(1) obtain l1 where b: "b = a\<lparr>linkData := l1\<rparr>" and A: "list_all2 ?Q (linkData a) l1"
    unfolding unlinked_from_def by blast
  from assms(2) obtain l2 where c: "c = b\<lparr>linkData := l2\<rparr>" and B: "list_all2 ?Q (linkData b) l2"
    unfolding unlinked_from_def by blast
  from B b have B': "list_all2 ?Q l1 l2" by simp
  have "list_all2 ?Q (linkData a) l2"
    by (rule list_all2_trans[OF _ A B']) (auto simp: unlink_exit_idem)
  moreover have "c = a\<lparr>linkData := l2\<rparr>" using b c by simp
  ultimately show ?thesis unfolding unlinked_from_def by blast
qed

lemma unlinked_from_map:
  "unlinked_from ea b (b\<lparr>linkData := map (unlink_exit ea) (linkData b)\<rparr>)"
  unfolding unlinked_from_def
  by (rule exI[of _ "map (unlink_exit ea) (linkData b)"]) (simp add: list_all2_conv_all_nth)

lemma exitAddress_unlink_exit [simp]: "exitAddress (unlink_exit ea e) = exitAddress e"
  by (simp add: unlink_exit_def WriteLinkBlock_def)

lemma unlinked_from_exits:
  assumes "unlinked_from ea b b'"
  shows "map exitAddress (linkData b') = map exitAddress (linkData b)"
proof -
  have "list_all2 (\<lambda>e e'. e' = e \<or> e' = unlink_exit ea e) l l'
          \<Longrightarrow> map exitAddress l' = map exitAddress l" for l l'
    by (induction l l' rule: list_all2_induct) auto
  with assms show ?thesis by (auto simp: unlinked_from_def)
qed

lemma UnlinkBlock_loop_frame:
  "UnlinkBlock_loop ea msr qs s = Some s' \<Longrightarrow>
     registry_rel (unlinked_from ea) s s' \<and> s' = s\<lparr>block_map := block_map s'\<rparr>"
proof (induction qs arbitrary: s)
  case Nil
  then show ?case by (auto simp: registry_rel_refl unlinked_from_refl)
next
  case (Cons q qs)
  from Cons.prems obtain sb where sb: "deref s q = Some sb"
    by (auto split: option.splits)
  show ?case
  proof (cases "msrBits sb \<noteq> msr")
    case True
    with Cons sb show ?thesis by simp
  next
    case False
    let ?s1 = "store q (sb\<lparr>linkData := map (unlink_exit ea) (linkData sb)\<rparr>) s"
    from False sb Cons.prems have run: "UnlinkBlock_loop ea msr qs ?s1 = Some s'" by simp
    from Cons.IH[OF run] have r2: "registry_rel (unlinked_from ea) ?s1 s'"
      and f2: "s' = ?s1\<lparr>block_map := block_map s'\<rparr>" by simp_all
    have r1: "registry_rel (unlinked_from ea) s ?s1"
      by (rule registry_rel_store[where R = "unlinked_from ea",
                OF unlinked_from_refl sb unlinked_from_map])
    have "registry_rel (unlinked_from ea) s s'"
      by (rule registry_rel_trans[where R = "unlinked_from ea", OF unlinked_from_trans r1 r2])
    moreover have "s' = s\<lparr>block_map := block_map s'\<rparr>"
      using f2 by (simp add: store_def)
    ultimately show ?thesis by simp
  qed
qed

lemma fold_links_to_erase:
  "fold (links_to_erase p) es l =
     filter (\<lambda>n. \<not> (snd n = p \<and> fst n \<in> exitAddress ` set es)) l"
  by (induction es arbitrary: l) (auto simp: links_to_erase_def intro: filter_cong)

lemma DestroyBlock_effect:
  assumes "DestroyBlock p s = Some s'"
  shows "\<exists>block. deref s p = Some block \<and>
     registry_rel (unlinked_from (effectiveAddress block)) s s' \<and>
     deref s' p \<noteq> None \<and>
     block_range_map s' = block_range_map s \<and>
     valid_block s' = valid_block s \<and>
     fifoWriteAddresses s' = fifoWriteAddresses s \<and>
     pairedQuantizeAddresses s' = pairedQuantizeAddresses s \<and>
     fast_block_map s' =
       (if fast_block_map s (fast_block_map_index block) = Some p
        then (fast_block_map s)(fast_block_map_index block := None) else fast_block_map s) \<and>
     links_to s' =
       filter (\<lambda>n. \<not> (snd n = p \<and> fst n \<in> exitAddress ` set (linkData block))) (links_to s)"
proof -
  from assms obtain block where block: "deref s p = Some block"
    by (auto simp: DestroyBlock_def split: option.splits)
  define s1 where "s1 = (if fast_block_map s (fast_block_map_index block) = Some p
                    then s\<lparr>fast_block_map := (fast_block_map s)(fast_block_map_index block := None)\<rparr>
                    else s)"
  have d1: "deref s1 = deref s" and b1: "block_map s1 = block_map s"
    by (simp_all add: s1_def)
  from assms block obtain s2 block' where
    s2: "UnlinkBlock p s1 = Some s2" and block': "deref s2 p = Some block'" and
    s': "s' = s2\<lparr>links_to := fold (links_to_erase p) (linkData block') (links_to s2)\<rparr>"
    by (auto simp: DestroyBlock_def Let_def s1_def split: option.splits)
  from s2 block d1 have loop: "UnlinkBlock_loop (effectiveAddress block) (msrBits block)
      (map snd (mm_equal_range (effectiveAddress block) (links_to s1))) s1 = Some s2"
    by (simp add: UnlinkBlock_def)
  from UnlinkBlock_loop_frame[OF loop]
  have rel: "registry_rel (unlinked_from (effectiveAddress block)) s1 s2"
    and fr: "s2 = s1\<lparr>block_map := block_map s2\<rparr>" by simp_all
  have rel': "registry_rel (unlinked_from (effectiveAddress block)) s s'"
    using rel by (simp add: s' b1 registry_rel_def)
  from registry_rel_deref[OF rel, of p] block d1 block'
  have "unlinked_from (effectiveAddress block) block block'" by simp
  then have ex: "exitAddress ` set (linkData block') = exitAddress ` set (linkData block)"
    by (metis unlinked_from_exits set_map)
  have fields: "block_range_map s2 = block_range_map s1" "valid_block s2 = valid_block s1"
     "fifoWriteAddresses s2 = fifoWriteAddresses s1"
     "pairedQuantizeAddresses s2 = pairedQuantizeAddresses s1"
     "fast_block_map s2 = fast_block_map s1" "links_to s2 = links_to s1"
    by (subst fr, simp)+
  have "deref s' p \<noteq> None" using block' by (simp add: s')
  with block rel' fields ex show ?thesis
    by (auto simp: s' fold_links_to_erase s1_def)
qed



subsection \<open>Evaluating the scenarios\<close>

lemmas eval_defs =
  compile_block_def AllocateBlock_def empty_cache_def new_node_def populate_def ex_ppc_def
  Let_def FinalizeBlock_def deref_def store_def FastLookupIndexForAddress_def JitBlock_init_def
  LinkBlock_def LinkBlockExits_def link_exit_def GetBlockFromStartAddress_def block_map_find_def
  mm_equal_range_def unlinked_exit_def valid_block_loop.simps range_insert_loop.simps
  set_insert_def WriteLinkBlock_def

lemma ex_A_eq:
  "ex_A =
     \<lparr>block_map =
        [(0x1000, 1,
          \<lparr>effectiveAddress = 0x1000, physicalAddress = 0x1000, msrBits = 0x30,
             originalSize = 4, codeSize = 0, checkedEntry = 100, normalEntry = 101,
             linkData = [\<lparr>exitAddress = 0x2000, linkStatus = False, patchSite = None\<rparr>],
             fast_block_map_index = 0\<rparr>)],
      links_to = [(0x2000, 1)], block_range_map = [(0x1000, [1])], valid_block = {0x80},
      fast_block_map = (\<lambda>i. None)(0 := Some 1),
      fifoWriteAddresses = {}, pairedQuantizeAddresses = {}\<rparr>"
  by (simp add: ex_A_def eval_defs)

lemma ex_AB_eq:
  "ex_AB =
     \<lparr>block_map =
        [(0x1000, 1,
          \<lparr>effectiveAddress = 0x1000, physicalAddress = 0x1000, msrBits = 0x30,
             originalSize = 4, codeSize = 0, checkedEntry = 100, normalEntry = 101,
             linkData = [\<lparr>exitAddress = 0x2000, linkStatus = True, patchSite = Some 200\<rparr>],
             fast_block_map_index = 0\<rparr>),
         (0x2000, 2,
          \<lparr>effectiveAddress = 0x2000, physicalAddress = 0x2000, msrBits = 0x30,
             originalSize = 4, codeSize = 0, checkedEntry = 200, normalEntry = 201,
             linkData = [], fast_block_map_index = 0\<rparr>)],
      links_to = [(0x2000, 1)], block_range_map = [(0x1000, [1]), (0x2000, [2])],
      valid_block = {0x80, 0x100},
      fast_block_map = (\<lambda>i. None)(0 := Some 2),
      fifoWriteAddresses = {}, pairedQuantizeAddresses = {}\<rparr>"
  by (simp add: ex_AB_def ex_A_eq eval_defs insert_commute) (simp add: numeral_2_eq_2)

subsection \<open>AllocateBlock\<close>

lemma fold_max_ge: "(x::nat) \<in> set xs \<Longrightarrow> x \<le> fold max xs a"
  by (metis Max.set_eq_fold Max_ge List.finite_set list.set_intros(2))

lemma new_node_fresh: "deref s (new_node (block_map s)) = None"
proof -
  have "new_node (block_map s) \<notin> fst ` set (map snd (block_map s))"
  proof
    assume "new_node (block_map s) \<in> fst ` set (map snd (block_map s))"
    then have "new_node (block_map s) \<in> set (map (\<lambda>e. fst (snd e)) (block_map s))" by force
    from fold_max_ge[OF this, of 0] show False by (simp add: new_node_def)
  qed
  then show ?thesis by (simp add: deref_def map_of_eq_None_iff)
qed

lemma set_mm_emplace [simp]: "set (mm_emplace k v es) = insert (k, v) (set es)"
  by (induction es) auto

lemma length_mm_emplace [simp]: "length (mm_emplace k v es) = Suc (length es)"
  by (induction es) auto

lemma map_of_mm_emplace:
  "map_of (map snd bm) p = None \<Longrightarrow>
   map_of (map snd (mm_emplace k (p, b) bm)) q =
     (if q = p then Some b else map_of (map snd bm) q)"
  by (induction bm) auto

lemma AllocateBlock_effect:
  "AllocateBlock x em s = (p, s') \<Longrightarrow>
     p = new_node (block_map s) \<and>
     s' = s\<lparr>block_map := mm_emplace (address (JitCache_TranslateAddress x em))
              (p, JitBlock_init\<lparr>effectiveAddress := em,
                    physicalAddress := address (JitCache_TranslateAddress x em),
                    msrBits := MSR x AND JIT_CACHE_MSR_MASK x\<rparr>) (block_map s)\<rparr>"
  by (auto simp: AllocateBlock_def Let_def JitBlock_init_def)

lemma deref_AllocateBlock:
  assumes "AllocateBlock x em s = (p, s')"
  shows "deref s p = None"
    and "deref s' q =
           (if q = p
            then Some (JitBlock_init\<lparr>effectiveAddress := em,
                         physicalAddress := address (JitCache_TranslateAddress x em),
                         msrBits := MSR x AND JIT_CACHE_MSR_MASK x\<rparr>)
            else deref s q)"
proof -
  from AllocateBlock_effect[OF assms] have p: "p = new_node (block_map s)" and
    s': "s' = s\<lparr>block_map := mm_emplace (address (JitCache_TranslateAddress x em))
              (p, JitBlock_init\<lparr>effectiveAddress := em,
                    physicalAddress := address (JitCache_TranslateAddress x em),
                    msrBits := MSR x AND JIT_CACHE_MSR_MASK x\<rparr>) (block_map s)\<rparr>"
    by simp_all
  show "deref s p = None" by (simp add: p new_node_fresh)
  then have "map_of (map snd (block_map s)) p = None" by (simp add: deref_def)
  from map_of_mm_emplace[OF this]
  show "deref s' q =
           (if q = p
            then Some (JitBlock_init\<lparr>effectiveAddress := em,
                         physicalAddress := address (JitCache_TranslateAddress x em),
                         msrBits := MSR x AND JIT_CACHE_MSR_MASK x\<rparr>)
            else deref s q)"
    by (subst s') (simp add: deref_def)
qed

text \<open>
  C4, as the claim has it: when the translation of \<open>em_address\<close> fails, \<^verbatim>\<open>Allocate\<close>
  returns nothing and leaves the registry as it was. The code never reads the \<^verbatim>\<open>valid\<close>
  field: with an MMU that maps nothing, the registry of the empty cache is not the same
  after the call.
\<close>

theorem AllocateBlock_unmapped_counterexample:
  "\<not> valid (JitCache_TranslateAddress ex_ppc_unmapped 0x80001000) \<and>
   block_map (snd (AllocateBlock ex_ppc_unmapped 0x80001000 empty_cache))
     \<noteq> block_map empty_cache"
  by code_simp

text \<open>
  C4, amended. \<^verbatim>\<open>AllocateBlock\<close> does not test whether the translation succeeded. For
  every \<open>em_address\<close>, translated or not, it returns the address of a block that was not
  registered before and is registered after, the registry gains exactly one node, under
  the key that the \<^verbatim>\<open>address\<close> field of the translation result holds, and nothing but
  the registry changes.
\<close>

theorem AllocateBlock_always_inserts:
  "deref s (fst (AllocateBlock x em s)) = None \<and>
   deref (snd (AllocateBlock x em s)) (fst (AllocateBlock x em s)) \<noteq> None \<and>
   (\<exists>b. set (block_map (snd (AllocateBlock x em s))) =
         insert (address (JitCache_TranslateAddress x em), fst (AllocateBlock x em s), b)
           (set (block_map s))) \<and>
   length (block_map (snd (AllocateBlock x em s))) = Suc (length (block_map s)) \<and>
   snd (AllocateBlock x em s) = s\<lparr>block_map := block_map (snd (AllocateBlock x em s))\<rparr>"
proof -
  obtain p s' where a: "AllocateBlock x em s = (p, s')" by (cases "AllocateBlock x em s")
  note e = AllocateBlock_effect[OF a] and d = deref_AllocateBlock[OF a]
  have "s' = s\<lparr>block_map := block_map s'\<rparr>" by (subst (1 2) conjunct2[OF e]) simp
  moreover have "length (block_map s') = Suc (length (block_map s))"
    by (subst conjunct2[OF e]) simp
  moreover have "\<exists>b. set (block_map s') =
      insert (address (JitCache_TranslateAddress x em), p, b) (set (block_map s))"
    by (subst conjunct2[OF e]) (simp, blast)
  ultimately show ?thesis using d by (simp add: a)
qed

text \<open>
  C5, as the claim has it: the block that \<^verbatim>\<open>AllocateBlock\<close> returns holds in
  \<^verbatim>\<open>fast_block_map_index\<close> a sentinel, a value that is not a slot of the fast map
  occupied by this block. The code stores 0, the number of a slot, and does not touch the
  fast map. In \<open>ex_stale\<close> the registry is empty and slot 0 still holds address 1, the
  address of a block that is registered no more; a block allocated there gets address 1,
  index 0, and slot 0 holds its address.
\<close>

theorem AllocateBlock_stale_slot_counterexample:
  "\<not> Option.is_none (MoveBlockIntoFastCache ex_ppc (\<lambda>a s. None) 0x80001000 0x30 ex_alias) \<and>
   \<not> Option.is_none (InvalidateICache ex_ppc 0x80001004 4 False
        (the (MoveBlockIntoFastCache ex_ppc (\<lambda>a s. None) 0x80001000 0x30 ex_alias))) \<and>
   block_map ex_stale = [] \<and>
   Option.is_none
     (deref ex_stale (fst (AllocateBlock ex_ppc 0x80001000 ex_stale))) \<and>
   fast_block_map ex_stale 0 = Some 1 \<and>
   fst (AllocateBlock ex_ppc 0x80001000 ex_stale) = 1 \<and>
   map_option fast_block_map_index
     (deref (snd (AllocateBlock ex_ppc 0x80001000 ex_stale))
        (fst (AllocateBlock ex_ppc 0x80001000 ex_stale))) = Some 0 \<and>
   fast_block_map (snd (AllocateBlock ex_ppc 0x80001000 ex_stale)) 0
     = Some (fst (AllocateBlock ex_ppc 0x80001000 ex_stale))"
  by code_simp

text \<open>
  C5, amended. For every \<open>em_address\<close>, \<^verbatim>\<open>AllocateBlock\<close> registers, under the
  \<^verbatim>\<open>address\<close> field of the translation result, and returns a block whose effective
  address is \<open>em_address\<close>, whose physical address is that field, whose MSR bits are
  \<^verbatim>\<open>MSR & JIT_CACHE_MSR_MASK\<close>, which has no exits, and whose
  \<^verbatim>\<open>fast_block_map_index\<close> is 0. The fast map is left as it was: the new block is in
  none of its slots, slot 0 included, when every slot that was in use pointed to a
  registered block.
\<close>

theorem AllocateBlock_result:
  "\<exists>b. deref (snd (AllocateBlock x em s)) (fst (AllocateBlock x em s)) = Some b \<and>
     (address (JitCache_TranslateAddress x em), fst (AllocateBlock x em s), b)
        \<in> set (block_map (snd (AllocateBlock x em s))) \<and>
     effectiveAddress b = em \<and>
     physicalAddress b = address (JitCache_TranslateAddress x em) \<and>
     msrBits b = MSR x AND JIT_CACHE_MSR_MASK x \<and>
     linkData b = [] \<and>
     fast_block_map_index b = 0 \<and>
     fast_block_map (snd (AllocateBlock x em s)) = fast_block_map s \<and>
     (fast_map_valid s \<longrightarrow>
        (\<forall>i. fast_block_map (snd (AllocateBlock x em s)) i \<noteq> Some (fst (AllocateBlock x em s))))"
proof -
  obtain p s' where a: "AllocateBlock x em s = (p, s')" by (cases "AllocateBlock x em s")
  note e = AllocateBlock_effect[OF a] and d = deref_AllocateBlock[OF a]
  let ?b = "JitBlock_init\<lparr>effectiveAddress := em,
                physicalAddress := address (JitCache_TranslateAddress x em),
                msrBits := MSR x AND JIT_CACHE_MSR_MASK x\<rparr>"
  have f: "fast_block_map s' = fast_block_map s" by (subst conjunct2[OF e]) simp
  have "fast_block_map s i \<noteq> Some p" if "fast_map_valid s" for i
    using that d(1) unfolding fast_map_valid_def by fastforce
  moreover have "(address (JitCache_TranslateAddress x em), p, ?b) \<in> set (block_map s')"
    by (subst conjunct2[OF e]) simp
  ultimately show ?thesis using d(2)[of p] f
    by (simp add: a JitBlock_init_def)
qed

theorem AllocateBlock_result_witness:
  "fast_map_valid ex_A \<and>
   (\<exists>b. deref (snd (AllocateBlock ex_ppc 0x80001000 ex_A))
           (fst (AllocateBlock ex_ppc 0x80001000 ex_A)) = Some b \<and>
     (address (JitCache_TranslateAddress ex_ppc 0x80001000),
        fst (AllocateBlock ex_ppc 0x80001000 ex_A), b)
        \<in> set (block_map (snd (AllocateBlock ex_ppc 0x80001000 ex_A))) \<and>
     effectiveAddress b = 0x80001000 \<and>
     physicalAddress b = address (JitCache_TranslateAddress ex_ppc 0x80001000) \<and>
     msrBits b = MSR ex_ppc AND JIT_CACHE_MSR_MASK ex_ppc \<and>
     linkData b = [] \<and>
     fast_block_map_index b = 0 \<and>
     fast_block_map (snd (AllocateBlock ex_ppc 0x80001000 ex_A)) = fast_block_map ex_A \<and>
     (\<forall>i. fast_block_map (snd (AllocateBlock ex_ppc 0x80001000 ex_A)) i
           \<noteq> Some (fst (AllocateBlock ex_ppc 0x80001000 ex_A))))"
proof -
  have h: "fast_map_valid ex_A"
    by (simp add: fast_map_valid_def ex_A_eq deref_def)
  from AllocateBlock_result[where s = ex_A and x = ex_ppc and em = "0x80001000"] h
  show ?thesis by blast
qed

subsection \<open>Clear\<close>

lemma deref_store_live: "deref (store p b s) q = None \<longleftrightarrow> deref s q = None"
  by (simp add: deref_store)

lemma UnlinkBlock_loop_total:
  "\<forall>q \<in> set qs. deref s q \<noteq> None \<Longrightarrow> UnlinkBlock_loop ea msr qs s \<noteq> None"
proof (induction qs arbitrary: s)
  case Nil
  then show ?case by simp
next
  case (Cons q qs)
  then obtain sb where sb: "deref s q = Some sb" by auto
  have "\<forall>q' \<in> set qs. deref (store q b s) q' \<noteq> None" for b
    using Cons.prems by (simp add: deref_store_live)
  with Cons.IH Cons.prems sb show ?case by simp
qed

lemma DestroyBlock_total:
  assumes "deref s p \<noteq> None" "links_valid s"
  shows "DestroyBlock p s \<noteq> None"
proof -
  from assms(1) obtain block where block: "deref s p = Some block" by auto
  define s1 where "s1 = (if fast_block_map s (fast_block_map_index block) = Some p
                    then s\<lparr>fast_block_map := (fast_block_map s)(fast_block_map_index block := None)\<rparr>
                    else s)"
  have d1: "deref s1 = deref s" and l1: "links_to s1 = links_to s"
    by (simp_all add: s1_def)
  have "\<forall>q \<in> set (map snd (mm_equal_range (effectiveAddress block) (links_to s1))). deref s1 q \<noteq> None"
    using assms(2) by (auto simp: links_valid_def d1 l1 mm_equal_range_def)
  from UnlinkBlock_loop_total[OF this] obtain s2 where
    s2: "UnlinkBlock_loop (effectiveAddress block) (msrBits block)
           (map snd (mm_equal_range (effectiveAddress block) (links_to s1))) s1 = Some s2"
    by blast
  from UnlinkBlock_loop_frame[OF s2] have "registry_rel (unlinked_from (effectiveAddress block)) s1 s2"
    by simp
  from registry_rel_live[OF this, of p] block d1 have "deref s2 p \<noteq> None" by simp
  with s2 block d1 show ?thesis
    by (auto simp: DestroyBlock_def UnlinkBlock_def Let_def s1_def[symmetric] split: option.splits)
qed

lemma DestroyBlock_links_valid:
  assumes "DestroyBlock p s = Some s'" "links_valid s"
  shows "links_valid s'"
proof -
  from DestroyBlock_effect[OF assms(1)] obtain block :: JitBlock where
    rel: "registry_rel (unlinked_from (effectiveAddress block)) s s'" and
    l: "links_to s' = filter (\<lambda>n. \<not> (snd n = p \<and> fst n \<in> exitAddress ` set (linkData block))) (links_to s)"
    by blast
  show ?thesis using assms(2) registry_rel_live[OF rel]
    by (auto simp: links_valid_def l)
qed

lemma Clear_loop_total:
  "\<forall>p \<in> set ps. deref s p \<noteq> None \<Longrightarrow> links_valid s \<Longrightarrow>
   \<exists>s'. Clear_loop ps s = Some s' \<and> fifoWriteAddresses s' = fifoWriteAddresses s \<and>
        pairedQuantizeAddresses s' = pairedQuantizeAddresses s"
proof (induction ps arbitrary: s)
  case Nil
  then show ?case by simp
next
  case (Cons p ps)
  from DestroyBlock_total[of s p] Cons.prems obtain s1 where s1: "DestroyBlock p s = Some s1"
    by auto
  from DestroyBlock_effect[OF s1] obtain block :: JitBlock where
    rel: "registry_rel (unlinked_from (effectiveAddress block)) s s1" and
    h: "fifoWriteAddresses s1 = fifoWriteAddresses s" "pairedQuantizeAddresses s1 = pairedQuantizeAddresses s"
    by blast
  have "\<forall>p \<in> set ps. deref s1 p \<noteq> None"
    using Cons.prems(1) registry_rel_live[OF rel] by simp
  from Cons.IH[OF this DestroyBlock_links_valid[OF s1 Cons.prems(2)]] s1 h
  show ?case by simp
qed

lemma deref_registered:
  assumes "(k, p, b) \<in> set (block_map s)"
  shows "deref s p \<noteq> None"
proof -
  from assms have "(p, b) \<in> set (map snd (block_map s))" by force
  then have "p \<in> fst ` set (map snd (block_map s))" by force
  then show ?thesis by (simp add: deref_def map_of_eq_None_iff)
qed

lemma Clear_links_valid:
  assumes "links_valid s"
  shows "Clear s = Some empty_cache"
proof -
  let ?s0 = "s\<lparr>fifoWriteAddresses := {}, pairedQuantizeAddresses := {}\<rparr>"
  have lv: "links_valid ?s0" using assms by (simp add: links_valid_def)
  have "\<forall>p \<in> set (map (\<lambda>e. fst (snd e)) (block_map ?s0)). deref ?s0 p \<noteq> None"
    using deref_registered[of _ _ _ s] by (auto simp: deref_def)
  from Clear_loop_total[OF this lv] obtain s1 where
    s1: "Clear_loop (map (\<lambda>e. fst (snd e)) (block_map ?s0)) ?s0 = Some s1" and
    h: "fifoWriteAddresses s1 = {}" "pairedQuantizeAddresses s1 = {}"
    by auto
  have "s1\<lparr>block_map := [], links_to := [], block_range_map := [],
                   valid_block := {}, fast_block_map := (\<lambda>i. None)\<rparr> = empty_cache"
    using h by (cases s1) (simp add: empty_cache_def)
  with s1 show ?thesis by (simp add: Clear_def Let_def)
qed




subsection \<open>LinkBlockExits and LinkBlock\<close>

lemma relinked_refl: "relinked b b"
  unfolding relinked_def
  by (rule exI[of _ "linkData b"], rule exI[of _ "fast_block_map_index b"]) simp

lemma relinked_trans:
  assumes "relinked a b" "relinked b c"
  shows "relinked a c"
proof -
  from assms(1) obtain l1 i1 where b: "b = a\<lparr>linkData := l1, fast_block_map_index := i1\<rparr>"
    and A: "map exitAddress l1 = map exitAddress (linkData a)"
    unfolding relinked_def by blast
  from assms(2) obtain l2 i2 where c: "c = b\<lparr>linkData := l2, fast_block_map_index := i2\<rparr>"
    and B: "map exitAddress l2 = map exitAddress (linkData b)"
    unfolding relinked_def by blast
  have "c = a\<lparr>linkData := l2, fast_block_map_index := i2\<rparr>" using b c by simp
  moreover have "map exitAddress l2 = map exitAddress (linkData a)" using A B b by simp
  ultimately show ?thesis unfolding relinked_def by blast
qed

lemma relinked_index: "relinked b (b\<lparr>fast_block_map_index := i\<rparr>)"
  unfolding relinked_def by (rule exI[of _ "linkData b"], rule exI[of _ i]) simp

lemma relinked_fields:
  assumes "relinked b b'"
  shows "effectiveAddress b' = effectiveAddress b" "physicalAddress b' = physicalAddress b"
    "msrBits b' = msrBits b" "originalSize b' = originalSize b"
    "checkedEntry b' = checkedEntry b" "normalEntry b' = normalEntry b"
    "map exitAddress (linkData b') = map exitAddress (linkData b)"
  using assms by (auto simp: relinked_def)

lemma exitAddress_link_exit [simp]: "exitAddress (link_exit x s msr e) = exitAddress e"
  by (simp add: link_exit_def WriteLinkBlock_def split: option.splits)

lemma relinked_link:
  "relinked b (b\<lparr>linkData := map (link_exit x s msr) (linkData b)\<rparr>)"
  unfolding relinked_def
  by (rule exI[of _ "map (link_exit x s msr) (linkData b)"], rule exI[of _ "fast_block_map_index b"])
     (simp add: comp_def)



lemma LinkBlockExits_frame:
  assumes "LinkBlockExits x p s = Some s'"
  shows "registry_rel relinked s s' \<and> s' = s\<lparr>block_map := block_map s'\<rparr>"
proof -
  from assms obtain block where block: "deref s p = Some block" and
    s': "s' = store p (block\<lparr>linkData := map (link_exit x s (msrBits block)) (linkData block)\<rparr>) s"
    by (auto simp: LinkBlockExits_def split: option.splits)
  have "registry_rel relinked s s'" unfolding s'
    by (rule registry_rel_store[where R = relinked, OF relinked_refl block relinked_link])
  moreover have "s' = s\<lparr>block_map := block_map s'\<rparr>" by (simp add: s' store_def)
  ultimately show ?thesis by simp
qed

lemma LinkBlockExits_total: "deref s p \<noteq> None \<Longrightarrow> LinkBlockExits x p s \<noteq> None"
  by (auto simp: LinkBlockExits_def)

lemma only_registry_trans:
  assumes "s1 = s\<lparr>block_map := block_map s1\<rparr>" "s2 = s1\<lparr>block_map := block_map s2\<rparr>"
  shows "s2 = s\<lparr>block_map := block_map s2\<rparr>"
  using assms by (cases s; cases s1; cases s2) simp

lemma frame_trans:
  assumes "registry_rel relinked s s1 \<and> s1 = s\<lparr>block_map := block_map s1\<rparr>"
    and "registry_rel relinked s1 s2 \<and> s2 = s1\<lparr>block_map := block_map s2\<rparr>"
  shows "registry_rel relinked s s2 \<and> s2 = s\<lparr>block_map := block_map s2\<rparr>"
proof -
  from assms have a: "registry_rel relinked s s1" and b: "registry_rel relinked s1 s2"
    and c: "s1 = s\<lparr>block_map := block_map s1\<rparr>" and d: "s2 = s1\<lparr>block_map := block_map s2\<rparr>"
    by simp_all
  have "registry_rel relinked s s2"
    by (rule registry_rel_trans[where R = relinked, OF relinked_trans a b])
  with only_registry_trans[OF c d] show ?thesis by simp
qed

lemma LinkBlock_loop_frame:
  "LinkBlock_loop x msr qs s = Some s' \<Longrightarrow>
     registry_rel relinked s s' \<and> s' = s\<lparr>block_map := block_map s'\<rparr>"
proof (induction qs arbitrary: s)
  case Nil
  then show ?case by (auto simp: registry_rel_refl relinked_refl)
next
  case (Cons q qs)
  from Cons.prems obtain b2 where b2: "deref s q = Some b2" by (auto split: option.splits)
  show ?case
  proof (cases "msr = msrBits b2")
    case False
    with Cons b2 show ?thesis by simp
  next
    case True
    with Cons.prems b2 obtain s1 where s1: "LinkBlockExits x q s = Some s1"
      and run: "LinkBlock_loop x msr qs s1 = Some s'"
      by (auto split: option.splits)
    show ?thesis by (rule frame_trans[OF LinkBlockExits_frame[OF s1] Cons.IH[OF run]])
  qed
qed

lemma LinkBlock_frame:
  assumes "LinkBlock x p s = Some s'"
  shows "registry_rel relinked s s' \<and> s' = s\<lparr>block_map := block_map s'\<rparr>"
proof -
  from assms obtain s1 and block :: JitBlock where s1: "LinkBlockExits x p s = Some s1"
    and run: "LinkBlock_loop x (msrBits block)
                 (map snd (mm_equal_range (effectiveAddress block) (links_to s1))) s1 = Some s'"
    by (auto simp: LinkBlock_def split: option.splits)
  show ?thesis by (rule frame_trans[OF LinkBlockExits_frame[OF s1] LinkBlock_loop_frame[OF run]])
qed

lemma LinkBlock_loop_total:
  "\<forall>q \<in> set qs. deref s q \<noteq> None \<Longrightarrow> LinkBlock_loop x msr qs s \<noteq> None"
proof (induction qs arbitrary: s)
  case Nil
  then show ?case by simp
next
  case (Cons q qs)
  then obtain b2 where b2: "deref s q = Some b2" by auto
  show ?case
  proof (cases "msr = msrBits b2")
    case False
    with Cons b2 show ?thesis by simp
  next
    case True
    from LinkBlockExits_total[of s q x] b2 obtain s1 where s1: "LinkBlockExits x q s = Some s1"
      by auto
    from LinkBlockExits_frame[OF s1] have "registry_rel relinked s s1" by simp
    from registry_rel_live[OF this] Cons.prems have "\<forall>q \<in> set qs. deref s1 q \<noteq> None" by simp
    from Cons.IH[OF this] True b2 s1 show ?thesis by simp
  qed
qed

lemma LinkBlock_total:
  assumes "deref s p = Some block"
    and "\<forall>n \<in> set (links_to s). fst n = effectiveAddress block \<longrightarrow> deref s (snd n) \<noteq> None"
  shows "LinkBlock x p s \<noteq> None"
proof -
  from LinkBlockExits_total[of s p x] assms(1) obtain s1 where s1: "LinkBlockExits x p s = Some s1"
    by auto
  note fr = LinkBlockExits_frame[OF s1]
  from fr have rel: "registry_rel relinked s s1" and e: "s1 = s\<lparr>block_map := block_map s1\<rparr>"
    by simp_all
  have l: "links_to s1 = links_to s" by (subst e) simp
  from registry_rel_deref[OF rel, of p] assms(1) obtain block' where
    block': "deref s1 p = Some block'" and r: "relinked block block'"
    by (cases "deref s1 p") auto
  have "\<forall>q \<in> set (map snd (mm_equal_range (effectiveAddress block') (links_to s1))). deref s1 q \<noteq> None"
    using assms(2) registry_rel_live[OF rel] relinked_fields(1)[OF r]
    by (auto simp: l mm_equal_range_def)
  from LinkBlock_loop_total[OF this] s1 block' show ?thesis
    by (simp add: LinkBlock_def)
qed

subsection \<open>InvalidateICache\<close>

lemma bucket_loop_inv:
  assumes brm: "\<And>s m. P s \<Longrightarrow> P (s\<lparr>block_range_map := m\<rparr>)"
    and destroy: "\<And>s p s1 block. P s \<Longrightarrow> deref s p = Some block \<Longrightarrow> DestroyBlock p s = Some s1 \<Longrightarrow>
                    P (s1\<lparr>block_map := mm_erase_key (physicalAddress block) (block_map s1)\<rparr>)"
  shows "bucket_loop x cur pAddr len ps s = Some s' \<Longrightarrow> P s \<Longrightarrow> P s'"
proof (induction ps arbitrary: s)
  case Nil
  then show ?case by simp
next
  case (Cons p ps)
  from Cons.prems(1) obtain block :: JitBlock where block: "deref s p = Some block"
    by (auto split: option.splits)
  show ?case
  proof (cases "Overlap block pAddr len")
    case False
    with Cons block show ?thesis by simp
  next
    case True
    with Cons.prems(1) block obtain m s1 where
      d: "DestroyBlock p (s\<lparr>block_range_map := m\<rparr>) = Some s1" and
      run: "bucket_loop x cur pAddr len ps
              (s1\<lparr>block_map := mm_erase_key (physicalAddress block) (block_map s1),
                   block_range_map := brm_set_erase cur p (block_range_map s1)\<rparr>) = Some s'"
      by (auto simp: Let_def split: option.splits)
    have "P (s\<lparr>block_range_map := m\<rparr>)" using Cons.prems(2) by (rule brm)
    from destroy[OF this _ d] block
    have "P (s1\<lparr>block_map := mm_erase_key (physicalAddress block) (block_map s1)\<rparr>)" by simp
    from brm[OF this] have "P (s1\<lparr>block_map := mm_erase_key (physicalAddress block) (block_map s1),
                   block_range_map := brm_set_erase cur p (block_range_map s1)\<rparr>)" by simp
    from Cons.IH[OF run this] show ?thesis .
  qed
qed

lemma range_walk_inv:
  assumes brm: "\<And>s m. P s \<Longrightarrow> P (s\<lparr>block_range_map := m\<rparr>)"
    and destroy: "\<And>s p s1 block. P s \<Longrightarrow> deref s p = Some block \<Longrightarrow> DestroyBlock p s = Some s1 \<Longrightarrow>
                    P (s1\<lparr>block_map := mm_erase_key (physicalAddress block) (block_map s1)\<rparr>)"
    and run: "range_walk x pAddr len start end' s = Some s'"
  shows "P s \<longrightarrow> P s'"
  using run
proof (induction x pAddr len start end' s s' rule: range_walk.raw_induct[rotated 1, consumes 1])
  case (1 range_walk cpu pAddr len start end' s s')
  show ?case
  proof
    assume P: "P s"
    show "P s'"
    proof (cases "start = end'")
      case True
      with 1(2) P show ?thesis by simp
    next
      case False
      with 1(2) obtain cur s1 where cur: "start = Some cur" and
        b: "bucket_loop cpu cur pAddr len (brm_second cur (block_range_map s)) s = Some s1" and
        r: "(if brm_second cur (block_range_map s1) = []
                  then range_walk cpu pAddr len (brm_next cur (block_range_map s1)) end'
                         (s1\<lparr>block_range_map := mm_erase_key cur (block_range_map s1)\<rparr>)
                  else range_walk cpu pAddr len (brm_next cur (block_range_map s1)) end' s1) = Some s'"
        by (auto split: option.splits)
      from bucket_loop_inv[where P = P, OF brm destroy b P] have P1: "P s1" by simp
      show ?thesis
      proof (cases "brm_second cur (block_range_map s1) = []")
        case True
        with r 1(1) brm[OF P1] show ?thesis by auto
      next
        case False
        with r 1(1) P1 show ?thesis by auto
      qed
    qed
  qed
qed

lemma hint_erase_loop_inv:
  assumes hints: "\<And>s f q. P s \<Longrightarrow> P (s\<lparr>fifoWriteAddresses := f, pairedQuantizeAddresses := q\<rparr>)"
    and run: "hint_erase_loop i hi s = Some s'"
  shows "P s \<longrightarrow> P s'"
  using run
proof (induction i hi s s' rule: hint_erase_loop.raw_induct[rotated 1, consumes 1])
  case (1 hint_erase_loop i hi s s')
  then show ?case using hints by (auto split: if_splits)
qed

lemma destroy_blocks_inv:
  assumes brm: "\<And>s m. P s \<Longrightarrow> P (s\<lparr>block_range_map := m\<rparr>)"
    and destroy: "\<And>s p s1 block. P s \<Longrightarrow> deref s p = Some block \<Longrightarrow> DestroyBlock p s = Some s1 \<Longrightarrow>
                    P (s1\<lparr>block_map := mm_erase_key (physicalAddress block) (block_map s1)\<rparr>)"
    and hints: "\<And>s f q. P s \<Longrightarrow> P (s\<lparr>fifoWriteAddresses := f, pairedQuantizeAddresses := q\<rparr>)"
    and run: "destroy_blocks x a pAddr len forced s = Some s'" and P: "P s"
  shows "P s'"
proof -
  from run obtain s1 where w: "range_walk x pAddr len
      (lower_bound (pAddr AND NOT (BLOCK_RANGE_MAP_ELEMENTS x - 1)) (block_range_map s))
      (lower_bound (pAddr + len) (block_range_map s)) s = Some s1"
    and h: "(if \<not> forced then hint_erase_loop a (a + len) s1 else Some s1) = Some s'"
    by (auto simp: destroy_blocks_def Let_def split: option.splits)
  from range_walk_inv[where P = P, OF brm destroy w] P have P1: "P s1" by simp
  show ?thesis
  proof (cases forced)
    case True
    with h P1 show ?thesis by simp
  next
    case False
    with h have "hint_erase_loop a (a + len) s1 = Some s'" by simp
    from hint_erase_loop_inv[where P = P, OF hints this] P1 show ?thesis by simp
  qed
qed

lemma destroy_blocks_valid_block:
  assumes "destroy_blocks x a pAddr len forced s = Some s'"
  shows "valid_block s' = valid_block s"
proof -
  have "valid_block s' = valid_block s"
  proof (rule destroy_blocks_inv[where P = "\<lambda>t. valid_block t = valid_block s", OF _ _ _ assms])
    fix t p s1 and block :: JitBlock
    assume "valid_block t = valid_block s" "DestroyBlock p t = Some s1"
    with DestroyBlock_effect[of p t s1]
    show "valid_block (s1\<lparr>block_map := mm_erase_key (physicalAddress block) (block_map s1)\<rparr>) = valid_block s"
      by auto
  qed simp_all
  then show ?thesis .
qed

text \<open>
  C6. In a call \<^verbatim>\<open>InvalidateICache(address, 32, forced)\<close> whose translation succeeds:
  when the valid-bitmap bit of \<open>pAddr / 32\<close> is clear, the call returns and the cache is
  exactly what it was (registry, range index, link graph, fast map, bitmap and both hint
  sets, whatever \<open>forced\<close> is); when the bit is set, the call is the range walk (and the
  hint loop) run on the cache with that bit cleared, and whenever it returns, the bitmap is
  the old one without exactly that bit.
\<close>

theorem InvalidateICache_32_fast_path:
  assumes "valid (JitCache_TranslateAddress x a)"
  shows "(address (JitCache_TranslateAddress x a) div 32 \<notin> valid_block s \<longrightarrow>
            InvalidateICache x a 32 forced s = Some s) \<and>
         (address (JitCache_TranslateAddress x a) div 32 \<in> valid_block s \<longrightarrow>
            InvalidateICache x a 32 forced s =
              destroy_blocks x a (address (JitCache_TranslateAddress x a)) 32 forced
                (s\<lparr>valid_block := valid_block s - {address (JitCache_TranslateAddress x a) div 32}\<rparr>) \<and>
            (\<forall>s'. InvalidateICache x a 32 forced s = Some s' \<longrightarrow>
               valid_block s' = valid_block s - {address (JitCache_TranslateAddress x a) div 32}))"
proof -
  let ?p = "address (JitCache_TranslateAddress x a)"
  let ?s0 = "s\<lparr>valid_block := valid_block s - {?p div 32}\<rparr>"
  have 1: "InvalidateICache x a 32 forced s = Some s" if "?p div 32 \<notin> valid_block s"
    using assms that by (simp add: InvalidateICache_def Let_def)
  have 2: "InvalidateICache x a 32 forced s = destroy_blocks x a ?p 32 forced ?s0"
    if "?p div 32 \<in> valid_block s"
    using assms that by (simp add: InvalidateICache_def Let_def)
  have 3: "valid_block s' = valid_block s - {?p div 32}"
    if "?p div 32 \<in> valid_block s" "InvalidateICache x a 32 forced s = Some s'" for s'
  proof -
    from that 2 have "destroy_blocks x a ?p 32 forced ?s0 = Some s'" by simp
    from destroy_blocks_valid_block[OF this] show ?thesis by simp
  qed
  from 1 2 3 show ?thesis by blast
qed

theorem InvalidateICache_32_fast_path_witness:
  "valid (JitCache_TranslateAddress ex_ppc 0x3000) \<and>
   address (JitCache_TranslateAddress ex_ppc 0x3000) div 32 \<notin> valid_block ex_AB \<and>
   InvalidateICache ex_ppc 0x3000 32 False ex_AB = Some ex_AB \<and>
   valid (JitCache_TranslateAddress ex_ppc 0x2000) \<and>
   address (JitCache_TranslateAddress ex_ppc 0x2000) div 32 \<in> valid_block ex_AB \<and>
   InvalidateICache ex_ppc 0x2000 32 True ex_AB
     = Some (the (InvalidateICache ex_ppc 0x2000 32 True ex_AB)) \<and>
   valid_block (the (InvalidateICache ex_ppc 0x2000 32 True ex_AB))
     = valid_block ex_AB - {address (JitCache_TranslateAddress ex_ppc 0x2000) div 32}"
proof -
  have h1: "valid (JitCache_TranslateAddress ex_ppc 0x3000)"
    and h2: "valid (JitCache_TranslateAddress ex_ppc 0x2000)"
    by (simp_all add: ex_ppc_def)
  have clear: "address (JitCache_TranslateAddress ex_ppc 0x3000) div 32 \<notin> valid_block ex_AB"
    and set: "address (JitCache_TranslateAddress ex_ppc 0x2000) div 32 \<in> valid_block ex_AB"
    by (simp_all add: ex_ppc_def ex_AB_eq)
  have "\<not> Option.is_none (InvalidateICache ex_ppc 0x2000 32 True ex_AB)" by code_simp
  then have ret: "InvalidateICache ex_ppc 0x2000 32 True ex_AB
     = Some (the (InvalidateICache ex_ppc 0x2000 32 True ex_AB))"
    by (simp add: Option.is_none_def)
  from InvalidateICache_32_fast_path[OF h1, of ex_AB False]
       InvalidateICache_32_fast_path[OF h2, of ex_AB True] h1 h2 clear set ret
  show ?thesis by blast
qed

subsection \<open>FinalizeBlock and the inbound exits\<close>

lemma find_filter_rel:
  assumes "list_all2 Rn bm bm'"
    and "\<And>n n'. Rn n n' \<Longrightarrow> Q n' = Q n \<and> P n' = P n"
  shows "rel_option Rn (find P (filter Q bm)) (find P (filter Q bm'))"
  using assms(1)
proof (induction bm bm' rule: list_all2_induct)
  case Nil
  then show ?case by simp
next
  case (Cons n ns n' ns')
  with assms(2)[of n n'] show ?case by auto
qed

lemma lookup_entry_rel:
  assumes "registry_rel relinked s s'"
  shows "lookup_entry x s' t msr = lookup_entry x s t msr"
proof -
  let ?Rn = "\<lambda>n n'. fst n' = fst n \<and> fst (snd n') = fst (snd n) \<and> relinked (snd (snd n)) (snd (snd n'))"
  let ?P = "\<lambda>e::u32 \<times> nat \<times> JitBlock. effectiveAddress (snd (snd e)) = t \<and>
                      msrBits (snd (snd e)) = msr AND JIT_CACHE_MSR_MASK x"
  have r: "rel_option ?Rn (find ?P (filter (\<lambda>e. fst e = k) (block_map s)))
                        (find ?P (filter (\<lambda>e. fst e = k) (block_map s')))" for k
    using assms unfolding registry_rel_def
    by (rule find_filter_rel) (auto dest: relinked_fields)
  have "map_option (\<lambda>r. (fst r, checkedEntry (snd r))) (map_option snd (find ?P (filter (\<lambda>e. fst e = k) (block_map s')))) =
        map_option (\<lambda>r. (fst r, checkedEntry (snd r))) (map_option snd (find ?P (filter (\<lambda>e. fst e = k) (block_map s))))" for k
    using r[of k]
    by (cases "find ?P (filter (\<lambda>e. fst e = k) (block_map s))";
        cases "find ?P (filter (\<lambda>e. fst e = k) (block_map s'))")
       (auto dest: relinked_fields)
  then show ?thesis
    by (simp add: lookup_entry_def GetBlockFromStartAddress_def block_map_find_def Let_def
          mm_equal_range_def)
qed

lemma link_exit_found:
  assumes "lookup_entry x s (exitAddress e) msr = Some (b, c)"
  shows "link_exit x s msr e =
           (if \<not> linkStatus e then e\<lparr>patchSite := Some c, linkStatus := True\<rparr> else e)"
  using assms
  by (auto simp: link_exit_def lookup_entry_def WriteLinkBlock_def split: option.splits)


lemma LinkBlockExits_at:
  assumes "LinkBlockExits x q s = Some s1" "deref s a = Some A0"
  shows "deref s1 a =
           Some (if q = a then A0\<lparr>linkData := map (link_exit x s (msrBits A0)) (linkData A0)\<rparr>
                 else A0)"
  using assms by (auto simp: LinkBlockExits_def deref_store split: option.splits)

lemma LinkBlockExits_exit:
  assumes run: "LinkBlockExits x q s = Some s1"
    and found: "lookup_entry x s t msr = Some (b, c)"
    and pend: "exit_pending s a i t msr c"
  shows "exit_pending s1 a i t msr c \<and> (q = a \<longrightarrow> exit_linked s1 a i c) \<and>
         (exit_linked s a i c \<longrightarrow> exit_linked s1 a i c)"
proof -
  from pend obtain A0 :: JitBlock where A0: "deref s a = Some A0" "msrBits A0 = msr"
    "i < length (linkData A0)" "exitAddress (linkData A0 ! i) = t"
    "\<not> linkStatus (linkData A0 ! i) \<or> patchSite (linkData A0 ! i) = Some c"
    unfolding exit_pending_def by blast
  note d = LinkBlockExits_at[OF run A0(1)]
  show ?thesis
  proof (cases "q = a")
    case False
    with d A0 show ?thesis by (auto simp: exit_pending_def exit_linked_def)
  next
    case True
    let ?e = "link_exit x s msr (linkData A0 ! i)"
    from found A0(4) have "lookup_entry x s (exitAddress (linkData A0 ! i)) msr = Some (b, c)"
      by simp
    from link_exit_found[OF this] have e: "?e =
       (if \<not> linkStatus (linkData A0 ! i) then (linkData A0 ! i)\<lparr>patchSite := Some c, linkStatus := True\<rparr>
        else linkData A0 ! i)" .
    have "exitAddress ?e = t" "linkStatus ?e" "patchSite ?e = Some c"
      using A0(4,5) by (auto simp: e)
    with True d A0(1,2,3) show ?thesis
      by (auto simp: exit_pending_def exit_linked_def)
  qed
qed

lemma LinkBlock_loop_exit:
  "LinkBlock_loop x msr qs s = Some s' \<Longrightarrow> lookup_entry x s t msr = Some (b, c) \<Longrightarrow>
   exit_pending s a i t msr c \<Longrightarrow> a \<in> set qs \<or> exit_linked s a i c \<Longrightarrow>
   exit_linked s' a i c"
proof (induction qs arbitrary: s)
  case Nil
  then show ?case by simp
next
  case (Cons q qs)
  from Cons.prems(1) obtain b2 :: JitBlock where b2: "deref s q = Some b2"
    by (auto split: option.splits)
  show ?case
  proof (cases "msr = msrBits b2")
    case False
    with Cons.prems(1) b2 have run: "LinkBlock_loop x msr qs s = Some s'" by simp
    have "q \<noteq> a" using False b2 Cons.prems(3) by (auto simp: exit_pending_def)
    with Cons.prems(4) have "a \<in> set qs \<or> exit_linked s a i c" by auto
    from Cons.IH[OF run Cons.prems(2,3) this] show ?thesis .
  next
    case True
    with Cons.prems(1) b2 obtain s1 where s1: "LinkBlockExits x q s = Some s1"
      and run: "LinkBlock_loop x msr qs s1 = Some s'"
      by (auto split: option.splits)
    from LinkBlockExits_frame[OF s1] have "registry_rel relinked s s1" by simp
    from lookup_entry_rel[OF this] Cons.prems(2)
    have found1: "lookup_entry x s1 t msr = Some (b, c)" by simp
    note st = LinkBlockExits_exit[OF s1 Cons.prems(2,3)]
    have "a \<in> set qs \<or> exit_linked s1 a i c" using st Cons.prems(4) by auto
    from Cons.IH[OF run found1 conjunct1[OF st] this] show ?thesis .
  qed
qed

lemma LinkBlock_exit:
  assumes run: "LinkBlock x p s = Some s'"
    and found: "lookup_entry x s t msr = Some (b, c)"
    and pend: "exit_pending s a i t msr c"
    and p: "deref s p = Some B" "effectiveAddress B = t" "msrBits B = msr"
    and reg: "(t, a) \<in> set (links_to s)"
  shows "exit_linked s' a i c"
proof -
  from run obtain s1 and block :: JitBlock where s1: "LinkBlockExits x p s = Some s1"
    and block: "deref s1 p = Some block"
    and loop: "LinkBlock_loop x (msrBits block)
                 (map snd (mm_equal_range (effectiveAddress block) (links_to s1))) s1 = Some s'"
    by (auto simp: LinkBlock_def split: option.splits)
  note fr = LinkBlockExits_frame[OF s1]
  from fr have rel: "registry_rel relinked s s1" and e: "s1 = s\<lparr>block_map := block_map s1\<rparr>"
    by simp_all
  have l: "links_to s1 = links_to s" by (subst e) simp
  from registry_rel_deref[OF rel, of p] p(1) block have "relinked B block" by simp
  from relinked_fields(1,3)[OF this] p have blk: "effectiveAddress block = t" "msrBits block = msr"
    by simp_all
  have found1: "lookup_entry x s1 t msr = Some (b, c)"
    using lookup_entry_rel[OF rel] found by simp
  note st = LinkBlockExits_exit[OF s1 found pend]
  have "a \<in> set (map snd (mm_equal_range t (links_to s1)))"
    using reg by (force simp: l mm_equal_range_def)
  then have "a \<in> set (map snd (mm_equal_range t (links_to s1))) \<or> exit_linked s1 a i c" ..
  from LinkBlock_loop_exit[OF loop[unfolded blk] found1 conjunct1[OF st] this] show ?thesis .
qed


lemma FinalizeBlock_cases:
  assumes "FinalizeBlock x p block_link s = Some s'"
  obtains block vb m where "deref s p = Some block"
    and "block_link \<Longrightarrow>
           LinkBlock x p
             ((installed x p block s)\<lparr>valid_block := vb, block_range_map := m,
                 links_to := fold (\<lambda>e. mm_emplace (exitAddress e) p) (linkData block) (links_to s)\<rparr>)
             = Some s'"
    and "\<not> block_link \<Longrightarrow> s' = (installed x p block s)\<lparr>valid_block := vb, block_range_map := m\<rparr>"
  using assms
  by (auto simp: FinalizeBlock_def installed_def Let_def split: option.splits if_splits)

lemma installed_rel:
  assumes "deref s p = Some block"
  shows "registry_rel relinked s (installed x p block s)"
proof -
  let ?i = "FastLookupIndexForAddress x (effectiveAddress block)"
  let ?s0 = "s\<lparr>fast_block_map := (fast_block_map s)(?i := Some p)\<rparr>"
  have d: "deref ?s0 p = Some block" using assms by simp
  have "registry_rel relinked ?s0 (store p (block\<lparr>fast_block_map_index := ?i\<rparr>) ?s0)"
    by (rule registry_rel_store[where R = relinked, OF relinked_refl d relinked_index])
  then show ?thesis by (simp add: installed_def registry_rel_def)
qed

lemma installed_fields [simp]:
  "links_to (installed x p block s) = links_to s"
  "block_range_map (installed x p block s) = block_range_map s"
  "valid_block (installed x p block s) = valid_block s"
  "fifoWriteAddresses (installed x p block s) = fifoWriteAddresses s"
  "pairedQuantizeAddresses (installed x p block s) = pairedQuantizeAddresses s"
  "fast_block_map (installed x p block s) =
     (fast_block_map s)(FastLookupIndexForAddress x (effectiveAddress block) := Some p)"
  by (simp_all add: installed_def)

lemma deref_installed:
  "deref s p = Some block \<Longrightarrow>
   deref (installed x p block s) q =
     (if q = p
      then Some (block\<lparr>fast_block_map_index := FastLookupIndexForAddress x (effectiveAddress block)\<rparr>)
      else deref s q)"
  by (simp add: installed_def deref_store)

lemma set_fold_mm_emplace:
  "set (fold (\<lambda>e. mm_emplace (f e) p) es l) = set l \<union> (\<lambda>e. (f e, p)) ` set es"
  by (induction es arbitrary: l) auto


lemma registry_rel_other_fields [simp]:
  "registry_rel R s (s'\<lparr>links_to := l\<rparr>) = registry_rel R s s'"
  "registry_rel R s (s'\<lparr>block_range_map := m\<rparr>) = registry_rel R s s'"
  "registry_rel R s (s'\<lparr>valid_block := v\<rparr>) = registry_rel R s s'"
  "registry_rel R s (s'\<lparr>fast_block_map := f\<rparr>) = registry_rel R s s'"
  "registry_rel R s (s'\<lparr>fifoWriteAddresses := h\<rparr>) = registry_rel R s s'"
  "registry_rel R s (s'\<lparr>pairedQuantizeAddresses := h\<rparr>) = registry_rel R s s'"
  by (simp_all add: registry_rel_def)

text \<open>
  C8, as the claim has it: A is registered in the link graph with an unlinked exit to
  \<open>t\<close>, a block B with effective address \<open>t\<close> and A's MSR bits is published by
  \<^verbatim>\<open>Finalize\<close> with \<open>link = true\<close>, and afterwards the exit is linked and its patch
  site holds B's checked entry. \<^verbatim>\<open>LinkBlockExits\<close> patches the exit to the block that
  \<^verbatim>\<open>GetBlockFromStartAddress\<close> returns, the first match under the key. Here an older
  translation of \<open>0x2000\<close> with checked entry 300 is registered, B has checked entry 200,
  and after B is finalized the patch site of A's exit holds 300.
\<close>

theorem FinalizeBlock_links_first_match_counterexample:
  "(0x2000, 1) \<in> set (links_to ex_dup_pending) \<and>
   exit_of ex_dup_pending 1 0 = Some (unlinked_exit 0x2000) \<and>
   map_option effectiveAddress (deref ex_dup_pending 3) = Some 0x2000 \<and>
   map_option msrBits (deref ex_dup_pending 3) = map_option msrBits (deref ex_dup_pending 1) \<and>
   map_option checkedEntry (deref ex_dup_pending 3) = Some 200 \<and>
   exit_of (the (FinalizeBlock ex_ppc 3 True ex_dup_pending)) 1 0 =
     Some \<lparr>exitAddress = 0x2000, linkStatus = True, patchSite = Some 300\<rparr>"
  by code_simp

text \<open>
  C8, amended. If block A is registered in the link graph with an exit \<open>e\<close> to \<open>t\<close>
  whose link status is false, B has effective address \<open>t\<close> and A's MSR bits, the
  registry lookup \<^verbatim>\<open>GetBlockFromStartAddress(t, A.msrBits)\<close> finds B, and B is published
  by \<^verbatim>\<open>FinalizeBlock\<close> with \<open>block_link = true\<close>, then after that call the link
  status of \<open>e\<close> is true and its patch site holds B's checked entry.
\<close>

theorem FinalizeBlock_links_inbound_exit:
  assumes A: "deref s a = Some A" and reg: "(t, a) \<in> set (links_to s)"
    and e: "i < length (linkData A)" "exitAddress (linkData A ! i) = t"
           "\<not> linkStatus (linkData A ! i)"
    and B: "deref s b = Some B" "effectiveAddress B = t" "msrBits B = msrBits A"
    and found: "GetBlockFromStartAddress x s t (msrBits A) = Some (b, B)"
    and fin: "FinalizeBlock x b True s = Some s'"
  shows "\<exists>e'. exit_of s' a i = Some e' \<and> linkStatus e' \<and> patchSite e' = Some (checkedEntry B)"
proof -
  from fin B(1) obtain vb m where
    link: "LinkBlock x b
             ((installed x b B s)\<lparr>valid_block := vb, block_range_map := m,
                 links_to := fold (\<lambda>e. mm_emplace (exitAddress e) b) (linkData B) (links_to s)\<rparr>)
             = Some s'"
    by (auto elim!: FinalizeBlock_cases)
  let ?s3 = "(installed x b B s)\<lparr>valid_block := vb, block_range_map := m,
                 links_to := fold (\<lambda>e. mm_emplace (exitAddress e) b) (linkData B) (links_to s)\<rparr>"
  have rel: "registry_rel relinked s ?s3" using installed_rel[OF B(1), of x] by simp
  have "lookup_entry x s t (msrBits A) = Some (b, checkedEntry B)"
    using found by (simp add: lookup_entry_def)
  with lookup_entry_rel[OF rel]
  have found3: "lookup_entry x ?s3 t (msrBits A) = Some (b, checkedEntry B)" by simp
  have d3: "deref ?s3 q =
     (if q = b
      then Some (B\<lparr>fast_block_map_index := FastLookupIndexForAddress x (effectiveAddress B)\<rparr>)
      else deref s q)" for q
    using deref_installed[OF B(1), of x q] by simp
  have pend: "exit_pending ?s3 a i t (msrBits A) (checkedEntry B)"
    using A e B d3[of a] by (auto simp: exit_pending_def)
  have reg3: "(t, a) \<in> set (links_to ?s3)" using reg by (simp add: set_fold_mm_emplace)
  from LinkBlock_exit[OF link found3 pend _ _ _ reg3,
         of "B\<lparr>fast_block_map_index := FastLookupIndexForAddress x (effectiveAddress B)\<rparr>"]
       d3[of b] B
  have "exit_linked s' a i (checkedEntry B)" by simp
  then show ?thesis by (auto simp: exit_linked_def exit_of_def)
qed

theorem FinalizeBlock_links_inbound_exit_witness:
  "deref ex_A_B_pending 1 = Some ex_block_A \<and> (0x2000, 1) \<in> set (links_to ex_A_B_pending) \<and>
   0 < length (linkData ex_block_A) \<and> exitAddress (linkData ex_block_A ! 0) = 0x2000 \<and>
   \<not> linkStatus (linkData ex_block_A ! 0) \<and>
   deref ex_A_B_pending 2 = Some ex_block_B \<and> effectiveAddress ex_block_B = 0x2000 \<and>
   msrBits ex_block_B = msrBits ex_block_A \<and>
   GetBlockFromStartAddress ex_ppc ex_A_B_pending 0x2000 (msrBits ex_block_A)
     = Some (2, ex_block_B) \<and>
   FinalizeBlock ex_ppc 2 True ex_A_B_pending
     = Some (the (FinalizeBlock ex_ppc 2 True ex_A_B_pending)) \<and>
   (\<exists>e'. exit_of (the (FinalizeBlock ex_ppc 2 True ex_A_B_pending)) 1 0 = Some e' \<and>
         linkStatus e' \<and> patchSite e' = Some (checkedEntry ex_block_B))"
proof -
  have A: "deref ex_A_B_pending 1 = Some ex_block_A" by code_simp
  have reg: "(0x2000, 1) \<in> set (links_to ex_A_B_pending)" by code_simp
  have e: "0 < length (linkData ex_block_A)" "exitAddress (linkData ex_block_A ! 0) = 0x2000"
    "\<not> linkStatus (linkData ex_block_A ! 0)"
    by (simp_all add: ex_block_A_def unlinked_exit_def)
  have B: "deref ex_A_B_pending 2 = Some ex_block_B" by code_simp
  have B': "effectiveAddress ex_block_B = 0x2000" "msrBits ex_block_B = msrBits ex_block_A"
    by (simp_all add: ex_block_A_def ex_block_B_def)
  have found: "GetBlockFromStartAddress ex_ppc ex_A_B_pending 0x2000 (msrBits ex_block_A)
     = Some (2, ex_block_B)" by code_simp
  have "\<not> Option.is_none (FinalizeBlock ex_ppc 2 True ex_A_B_pending)" by code_simp
  then have fin: "FinalizeBlock ex_ppc 2 True ex_A_B_pending
     = Some (the (FinalizeBlock ex_ppc 2 True ex_A_B_pending))"
    by (simp add: Option.is_none_def)
  from FinalizeBlock_links_inbound_exit[OF A reg e B B' found fin] A reg e B B' found fin
  show ?thesis by blast
qed

subsection \<open>InvalidateICache and blocks that share a key\<close>

text \<open>
  C2. The claim: the range walk erases a block from the registry exactly when its
  physical span overlaps the invalidated range, and a non-overlapping block that shares
  its key with a destroyed one stays registered. In \<open>ex_alias\<close> the one-instruction block
  at address 1 spans \<open>[0x1000, 0x1004)\<close>, which the range \<open>[0x1004, 0x1008)\<close> does not
  touch, by \<^verbatim>\<open>Overlap\<close> and by the byte spans alike; the eight-instruction block at
  address 2, under the same key, overlaps it. \<^verbatim>\<open>InvalidateICache(0x80001004, 4, false)\<close>
  destroys block 2 and then erases the key, so block 1 is gone from the registry too,
  while the range index still lists it.
\<close>

theorem InvalidateICache_erases_whole_key:
  "map_option physicalAddress (deref ex_alias 1) = Some 0x1000 \<and>
   map_option originalSize (deref ex_alias 1) = Some 1 \<and>
   map_option (\<lambda>b. Overlap b 0x1004 4) (deref ex_alias 1) = Some False \<and>
   \<not> ((0x1004 :: u32) < 0x1000 + 4 * 1 \<and> (0x1000 :: u32) < 0x1004 + 4) \<and>
   map_option (\<lambda>b. Overlap b 0x1004 4) (deref ex_alias 2) = Some True \<and>
   address (JitCache_TranslateAddress ex_ppc 0x80001004) = 0x1004 \<and>
   map_option block_map (InvalidateICache ex_ppc 0x80001004 4 False ex_alias) = Some [] \<and>
   map_option block_range_map (InvalidateICache ex_ppc 0x80001004 4 False ex_alias)
     = Some [(0x1000, [1])]"
  by code_simp

subsection \<open>Dispatch\<close>







subsection \<open>The link-graph invariant\<close>



lemma registry_rel_lists:
  assumes "registry_rel R s s'"
  shows "map fst (block_map s') = map fst (block_map s)"
    and "map (\<lambda>n. fst (snd n)) (block_map s') = map (\<lambda>n. fst (snd n)) (block_map s)"
proof -
  have "list_all2 (\<lambda>n n'. fst n' = fst n \<and> fst (snd n') = fst (snd n) \<and> R (snd (snd n)) (snd (snd n'))) bm bm'
     \<Longrightarrow> map fst bm' = map fst bm \<and> map (\<lambda>n. fst (snd n)) bm' = map (\<lambda>n. fst (snd n)) bm"
    for bm bm' :: "(u32 \<times> nat \<times> JitBlock) list"
    by (induction bm bm' rule: list_all2_induct) auto
  with assms show "map fst (block_map s') = map fst (block_map s)"
    and "map (\<lambda>n. fst (snd n)) (block_map s') = map (\<lambda>n. fst (snd n)) (block_map s)"
    by (simp_all add: registry_rel_def)
qed

lemma registry_rel_node:
  assumes "registry_rel R s s'" "n' \<in> set (block_map s')"
  shows "\<exists>n \<in> set (block_map s). fst n' = fst n \<and> fst (snd n') = fst (snd n) \<and> R (snd (snd n)) (snd (snd n'))"
proof -
  let ?Q = "\<lambda>n n'. fst n' = fst n \<and> fst (snd n') = fst (snd n) \<and> R (snd (snd n)) (snd (snd n'))"
  have "list_all2 ?Q bm bm' \<Longrightarrow> n' \<in> set bm' \<Longrightarrow> \<exists>n \<in> set bm. ?Q n n'"
    for bm bm' :: "(u32 \<times> nat \<times> JitBlock) list"
    by (induction bm bm' rule: list_all2_induct) auto
  with assms show ?thesis by (simp add: registry_rel_def)
qed

lemma registry_wf_rel:
  assumes "registry_rel relinked s s'" "registry_wf s"
  shows "registry_wf s'"
proof -
  have "distinct (map (\<lambda>n. fst (snd n)) (block_map s'))"
    using assms by (simp add: registry_rel_lists(2) registry_wf_def)
  moreover have "fst n' = physicalAddress (snd (snd n'))" if "n' \<in> set (block_map s')" for n'
    using registry_rel_node[OF assms(1) that] assms(2)
    by (auto simp: registry_wf_def dest: relinked_fields(2))
  ultimately show ?thesis by (simp add: registry_wf_def)
qed



lemma distinct_map_mm_emplace:
  "distinct (map g (mm_emplace k v es)) \<longleftrightarrow> g (k, v) \<notin> g ` set es \<and> distinct (map g es)"
  by (induction es) auto

lemma deref_None_fresh: "deref s p = None \<Longrightarrow> p \<notin> (\<lambda>n. fst (snd n)) ` set (block_map s)"
  by (force simp: deref_def map_of_eq_None_iff)


lemma LinkBlock_links_to:
  assumes "LinkBlock x p s = Some s'"
  shows "links_to s' = links_to s"
proof -
  from LinkBlock_frame[OF assms] have "s' = s\<lparr>block_map := block_map s'\<rparr>" by simp
  then show ?thesis by (metis cache.select_convs(2) cache.surjective cache.update_convs(1))
qed


lemma inv_other_fields [simp]:
  "registry_wf (s\<lparr>links_to := l\<rparr>) = registry_wf s"
  "registry_wf (s\<lparr>block_range_map := m\<rparr>) = registry_wf s"
  "registry_wf (s\<lparr>valid_block := v\<rparr>) = registry_wf s"
  "registry_wf (s\<lparr>fast_block_map := f\<rparr>) = registry_wf s"
  "registry_wf (s\<lparr>fifoWriteAddresses := h\<rparr>) = registry_wf s"
  "registry_wf (s\<lparr>pairedQuantizeAddresses := h\<rparr>) = registry_wf s"
  "links_registered (s\<lparr>block_range_map := m\<rparr>) = links_registered s"
  "links_registered (s\<lparr>valid_block := v\<rparr>) = links_registered s"
  "links_registered (s\<lparr>fast_block_map := f\<rparr>) = links_registered s"
  "links_registered (s\<lparr>fifoWriteAddresses := h\<rparr>) = links_registered s"
  "links_registered (s\<lparr>pairedQuantizeAddresses := h\<rparr>) = links_registered s"
  by (simp_all add: registry_wf_def links_registered_def)







lemma store_node_ids:
  "map (\<lambda>n. (fst n, fst (snd n))) (store_node p b bm) = map (\<lambda>n. (fst n, fst (snd n))) bm"
  by (induction bm) auto


lemma store_node_mem:
  "n \<in> set (store_node p b bm) \<Longrightarrow> n \<in> set bm \<or> snd (snd n) = b"
  by (induction bm) (auto split: if_splits)

lemma store_wf:
  assumes wf: "registry_wf s" and d: "deref s p = Some b0"
    and ph: "physicalAddress b' = physicalAddress b0"
  shows "registry_wf (store p b' s)"
proof -
  have "registry_rel (\<lambda>b c. physicalAddress c = physicalAddress b) s (store p b' s)"
    by (rule registry_rel_store[OF _ d]) (simp_all add: ph)
  then have rel: "registry_rel (\<lambda>b c. physicalAddress c = physicalAddress b) s (store p b' s)" .
  have "distinct (map (\<lambda>n. fst (snd n)) (block_map (store p b' s)))"
    using wf by (simp add: registry_rel_lists(2)[OF rel] registry_wf_def)
  moreover have "fst n' = physicalAddress (snd (snd n'))" if "n' \<in> set (block_map (store p b' s))" for n'
    using registry_rel_node[OF rel that] wf by (auto simp: registry_wf_def)
  ultimately show ?thesis by (simp add: registry_wf_def)
qed






subsection \<open>Caches built by AllocateBlock and FinalizeBlock hold no dangling pointer\<close>

lemma AllocateBlock_wf:
  assumes "registry_wf s"
  shows "registry_wf (snd (AllocateBlock x em s))"
proof -
  obtain p s' where a: "AllocateBlock x em s = (p, s')" by (cases "AllocateBlock x em s")
  let ?k = "address (JitCache_TranslateAddress x em)"
  let ?b = "JitBlock_init\<lparr>effectiveAddress := em, physicalAddress := ?k,
                    msrBits := MSR x AND JIT_CACHE_MSR_MASK x\<rparr>"
  from AllocateBlock_effect[OF a]
  have s': "s' = s\<lparr>block_map := mm_emplace ?k (p, ?b) (block_map s)\<rparr>" by simp
  from deref_None_fresh[OF deref_AllocateBlock(1)[OF a]]
  have fresh: "p \<notin> (\<lambda>n. fst (snd n)) ` set (block_map s)" .
  have "registry_wf s'"
    using assms fresh by (simp add: s' registry_wf_def distinct_map_mm_emplace)
  then show ?thesis by (simp add: a)
qed

lemma no_dangling_live:
  assumes nd: "links_valid s" "fast_map_valid s"
    and live: "\<And>q. deref s q \<noteq> None \<Longrightarrow> deref s' q \<noteq> None"
    and l: "\<forall>n \<in> set (links_to s'). n \<in> set (links_to s) \<or> deref s' (snd n) \<noteq> None"
    and f: "\<forall>i q. fast_block_map s' i = Some q \<longrightarrow> fast_block_map s i = Some q \<or> deref s' q \<noteq> None"
  shows "links_valid s' \<and> fast_map_valid s'"
  using nd l f live unfolding links_valid_def fast_map_valid_def by blast

lemma built_no_dangling: "built x s \<Longrightarrow> no_dangling s"
proof (induction rule: built.induct)
  case built_empty
  show ?case
    by (simp add: no_dangling_def links_valid_def fast_map_valid_def registry_wf_def empty_cache_def)
next
  case (built_Allocate s em)
  obtain p s' where a: "AllocateBlock x em s = (p, s')" by (cases "AllocateBlock x em s")
  have e: "links_to s' = links_to s" "fast_block_map s' = fast_block_map s"
    by (subst conjunct2[OF AllocateBlock_effect[OF a]], simp)+
  have "links_valid s' \<and> fast_map_valid s'"
  proof (rule no_dangling_live)
    show "links_valid s" "fast_map_valid s" using built_Allocate.IH by (simp_all add: no_dangling_def)
    show "deref s' q \<noteq> None" if "deref s q \<noteq> None" for q
      using that deref_AllocateBlock[OF a] by (cases "q = p") simp_all
  qed (simp_all add: e)
  with AllocateBlock_wf[of s x em] built_Allocate.IH a show ?case
    by (simp add: no_dangling_def)
next
  case (built_populate s p n centry nentry exits)
  show ?case
  proof (cases "deref s p")
    case None
    with built_populate.IH show ?thesis by (simp add: populate_def)
  next
    case (Some b0)
    let ?b = "b0\<lparr>originalSize := n, checkedEntry := centry, normalEntry := nentry, linkData := exits\<rparr>"
    have pop: "populate p n centry nentry exits s = store p ?b s"
      using Some by (simp add: populate_def)
    have "links_valid (store p ?b s) \<and> fast_map_valid (store p ?b s)"
    proof (rule no_dangling_live[of s])
      show "links_valid s" "fast_map_valid s"
        using built_populate.IH by (simp_all add: no_dangling_def)
      show "deref (store p ?b s) q \<noteq> None" if "deref s q \<noteq> None" for q
        using that Some by (simp add: deref_store)
    qed simp_all
    moreover have "registry_wf (store p ?b s)"
      by (rule store_wf[OF _ Some]) (use built_populate.IH in \<open>simp_all add: no_dangling_def\<close>)
    ultimately show ?thesis by (simp add: pop no_dangling_def)
  qed
next
  case (built_Finalize s p block_link s')
  from built_Finalize.IH have nd: "links_valid s" "fast_map_valid s" and wf: "registry_wf s"
    by (simp_all add: no_dangling_def)
  show ?case
  proof (rule FinalizeBlock_cases[OF built_Finalize.hyps(2)])
    fix block vb m
    assume block: "deref s p = Some block"
      and yes: "block_link \<Longrightarrow>
           LinkBlock x p
             ((installed x p block s)\<lparr>valid_block := vb, block_range_map := m,
                 links_to := fold (\<lambda>e. mm_emplace (exitAddress e) p) (linkData block) (links_to s)\<rparr>)
             = Some s'"
      and no: "\<not> block_link \<Longrightarrow> s' = (installed x p block s)\<lparr>valid_block := vb, block_range_map := m\<rparr>"
    let ?s3 = "(installed x p block s)\<lparr>valid_block := vb, block_range_map := m,
                 links_to := fold (\<lambda>e. mm_emplace (exitAddress e) p) (linkData block) (links_to s)\<rparr>"
    note inst = installed_rel[OF block, of x]
    have rel: "registry_rel relinked s s'"
    proof (cases block_link)
      case False
      from no[OF False] inst show ?thesis by simp
    next
      case True
      from inst have r3: "registry_rel relinked s ?s3" by simp
      from LinkBlock_frame[OF yes[OF True]] have r': "registry_rel relinked ?s3 s'" by simp
      show ?thesis by (rule registry_rel_trans[where R = relinked, OF relinked_trans r3 r'])
    qed
    have l: "set (links_to s') \<subseteq> set (links_to s) \<union> (\<lambda>e. (exitAddress e, p)) ` set (linkData block)"
    proof (cases block_link)
      case False
      then show ?thesis by (simp add: no[OF False])
    next
      case True
      from LinkBlock_links_to[OF yes[OF True]] show ?thesis by (simp add: set_fold_mm_emplace)
    qed
    have f: "fast_block_map s' = (fast_block_map s)(FastLookupIndexForAddress x (effectiveAddress block) := Some p)"
    proof (cases block_link)
      case False
      then show ?thesis by (simp add: no[OF False])
    next
      case True
      from LinkBlock_frame[OF yes[OF True]] have e: "s' = ?s3\<lparr>block_map := block_map s'\<rparr>" by simp
      have "fast_block_map s' = fast_block_map ?s3" by (subst e) simp
      then show ?thesis by simp
    qed
    have livep: "deref s' p \<noteq> None" using registry_rel_live[OF rel, of p] block by simp
    have "links_valid s' \<and> fast_map_valid s'"
    proof (rule no_dangling_live[OF nd])
      show "deref s' q \<noteq> None" if "deref s q \<noteq> None" for q
        using that registry_rel_live[OF rel, of q] by simp
      show "\<forall>n \<in> set (links_to s'). n \<in> set (links_to s) \<or> deref s' (snd n) \<noteq> None"
        using l livep by auto
      show "\<forall>i q. fast_block_map s' i = Some q \<longrightarrow> fast_block_map s i = Some q \<or> deref s' q \<noteq> None"
        using livep by (auto simp: f)
    qed
    with registry_wf_rel[OF rel wf] show "no_dangling s'" by (simp add: no_dangling_def)
  qed
qed

lemma built_Clear: "built x s \<Longrightarrow> Clear s = Some empty_cache"
  using built_no_dangling[of x s] by (simp add: no_dangling_def Clear_links_valid)

subsection \<open>When FinalizeBlock returns\<close>

text \<open>
  The loop over the bitmap always ends, since its bound \<open>block_end / 32\<close> is below the
  largest \<^verbatim>\<open>u32\<close>. The loop over the buckets ends when the bucket size is not 0 and the
  last bucket of the block is not so high that adding the bucket size wraps. With that,
  and a link graph without dangling pointers, \<^verbatim>\<open>FinalizeBlock\<close> returns for every
  registered block.
\<close>

lemma unat_u32_less: "unat (w :: u32) < 4294967296"
  using unsigned_less[of w, where 'a = nat] by simp

lemma unat_max_u32: "unat (- 1 :: u32) = 4294967295"
  by (simp add: unsigned_minus_1_eq_mask mask_eq_exp_minus_1)

lemma unat_add_u32:
  "unat (a :: u32) + unat (b :: u32) < 4294967296 \<Longrightarrow> unat (a + b) = unat a + unat b"
  using unat_add_lem[of a b] by simp

lemma valid_block_loop_total:
  assumes "hi \<noteq> - 1"
  shows "\<exists>vb'. valid_block_loop addr hi vb = Some vb'"
proof (induction "unat hi + 1 - unat addr" arbitrary: addr vb rule: less_induct)
  case less
  show ?case
  proof (cases "addr \<le> hi")
    case False
    then show ?thesis by (subst valid_block_loop.simps) simp
  next
    case True
    have "unat hi \<noteq> unat (- 1 :: u32)" using assms by (simp add: word_unat_eq_iff)
    with unat_u32_less[of hi] have hi: "unat hi < 4294967295" by (simp add: unat_max_u32)
    have le: "unat addr \<le> unat hi" using True by (simp add: word_le_nat_alt)
    with hi have "unat addr + unat (1 :: u32) < 4294967296" by simp
    from unat_add_u32[OF this] have "unat (addr + 1) = unat addr + 1" by simp
    with le have "unat hi + 1 - unat (addr + 1) < unat hi + 1 - unat addr" by simp
    from less[OF this] obtain vb' where
      "valid_block_loop (addr + 1) hi (insert addr vb) = Some vb'" by blast
    with True show ?thesis by (subst valid_block_loop.simps) simp
  qed
qed

lemma range_insert_loop_total:
  assumes "step \<noteq> 0" "unat hi + unat step < 4294967296"
  shows "\<exists>m'. range_insert_loop addr hi step p m = Some m'"
proof (induction "unat hi + 1 - unat addr" arbitrary: addr m rule: less_induct)
  case less
  show ?case
  proof (cases "addr \<le> hi")
    case False
    then show ?thesis by (subst range_insert_loop.simps) simp
  next
    case True
    then have le: "unat addr \<le> unat hi" by (simp add: word_le_nat_alt)
    with assms(2) have "unat addr + unat step < 4294967296" by simp
    from unat_add_u32[OF this] have "unat (addr + step) = unat addr + unat step" .
    moreover have "0 < unat step" using assms(1) by (simp add: unat_gt_0)
    ultimately have "unat hi + 1 - unat (addr + step) < unat hi + 1 - unat addr"
      using le by simp
    from less[OF this] obtain m' where
      "range_insert_loop (addr + step) hi step p (brm_at_update addr (set_insert p) m) = Some m'"
      by blast
    with True show ?thesis by (subst range_insert_loop.simps) simp
  qed
qed

lemma div_32_not_max: "(w :: u32) div 32 \<noteq> - 1"
proof
  assume "w div 32 = - 1"
  then have "unat (w div 32) = unat (- 1 :: u32)" by simp
  moreover have "unat (w div 32) = unat w div 32" by (simp add: unat_div)
  ultimately show False using unat_u32_less[of w] by (simp add: unat_max_u32)
qed

lemma FinalizeBlock_total:
  assumes block: "deref s p = Some block"
    and step: "BLOCK_RANGE_MAP_ELEMENTS x \<noteq> 0"
    and top: "unat ((physicalAddress block + (originalSize block - 1) * 4)
                      AND NOT (BLOCK_RANGE_MAP_ELEMENTS x - 1))
              + unat (BLOCK_RANGE_MAP_ELEMENTS x) < 4294967296"
    and lv: "links_valid s"
  shows "FinalizeBlock x p block_link s \<noteq> None"
proof -
  let ?end = "physicalAddress block + (originalSize block - 1) * 4"
  let ?mask = "NOT (BLOCK_RANGE_MAP_ELEMENTS x - 1)"
  from valid_block_loop_total[OF div_32_not_max, where addr = "physicalAddress block div 32"
         and vb = "valid_block s" and w1 = ?end]
  obtain vb where vb: "valid_block_loop (physicalAddress block div 32) (?end div 32) (valid_block s) = Some vb"
    by blast
  from range_insert_loop_total[OF step top, where addr = "physicalAddress block AND ?mask"
         and p = p and m = "block_range_map s"]
  obtain m where m: "range_insert_loop (physicalAddress block AND ?mask) (?end AND ?mask)
                          (BLOCK_RANGE_MAP_ELEMENTS x) p (block_range_map s) = Some m"
    by blast
  let ?s2 = "(installed x p block s)\<lparr>valid_block := vb, block_range_map := m\<rparr>"
  let ?s3 = "?s2\<lparr>links_to := fold (\<lambda>e. mm_emplace (exitAddress e) p) (linkData block) (links_to ?s2)\<rparr>"
  have eq: "FinalizeBlock x p block_link s = (if block_link then LinkBlock x p ?s3 else Some ?s2)"
    using block vb m by (simp add: FinalizeBlock_def installed_def Let_def)
  have d3: "deref ?s3 q = (if q = p
      then Some (block\<lparr>fast_block_map_index := FastLookupIndexForAddress x (effectiveAddress block)\<rparr>)
      else deref s q)" for q
    using deref_installed[OF block, of x q] by simp
  have live: "deref ?s3 q \<noteq> None" if "deref s q \<noteq> None \<or> q = p" for q
    using that by (auto simp: deref_installed[OF block])
  have "\<forall>n \<in> set (links_to ?s3). deref ?s3 (snd n) \<noteq> None"
  proof
    fix n assume "n \<in> set (links_to ?s3)"
    then have "n \<in> set (links_to s) \<or> snd n = p" by (auto simp: set_fold_mm_emplace)
    with lv have "deref s (snd n) \<noteq> None \<or> snd n = p" unfolding links_valid_def by blast
    then show "deref ?s3 (snd n) \<noteq> None" by (rule live)
  qed
  then have "LinkBlock x p ?s3 \<noteq> None"
    by (intro LinkBlock_total[of ?s3 p]) (simp_all add: deref_installed[OF block])
  with eq show ?thesis by simp
qed

end
